theory Spec2Isabelle
  imports Main "HOL-Library.Multiset"
begin

section \<open>JavaScript values used by the page builder\<close>

text \<open>
  The builder (\<^verbatim>\<open>src/components/Drag.jsx\<close>, the component routed by \<^verbatim>\<open>App.tsx\<close>)
  keeps numbers that are either integers or \<^verbatim>\<open>NaN\<close>: every number it stores comes
  from a literal of \<^verbatim>\<open>DEFAULT_PROPS\<close> or from \<^verbatim>\<open>parseInt(value, 10)\<close>. Integers
  are unbounded here. JavaScript numbers are doubles: up to \<open>2^53\<close> in absolute value
  they are these integers; a longer digit string is rounded by \<^verbatim>\<open>parseInt\<close>, and one
  beyond the range of a double gives \<^verbatim>\<open>Infinity\<close>, which this model does not have.
\<close>

datatype jsnum = Num int | NaN

fun num_sub :: "jsnum \<Rightarrow> jsnum \<Rightarrow> jsnum" where
  "num_sub (Num a) (Num b) = Num (a - b)"
| "num_sub _ _ = NaN"

text \<open>The comparison \<^verbatim>\<open>x > 0\<close>: false for \<^verbatim>\<open>NaN\<close>.\<close>

fun num_gt0 :: "jsnum \<Rightarrow> bool" where
  "num_gt0 (Num a) = (0 < a)"
| "num_gt0 NaN = False"

text \<open>The operator \<^verbatim>\<open>x || 0\<close> on a number: \<^verbatim>\<open>NaN\<close> and \<^verbatim>\<open>0\<close> are falsy.\<close>

fun num_or0 :: "jsnum \<Rightarrow> jsnum" where
  "num_or0 (Num a) = Num a"
| "num_or0 NaN = Num 0"

datatype error = RangeError | TypeError | SyntaxError

subsection \<open>parseInt with radix 10\<close>

text \<open>
  ECMAScript \<^verbatim>\<open>parseInt(string, 10)\<close>: leading white space is skipped, one sign is
  read, then the longest prefix of decimal digits; no digit at all gives \<^verbatim>\<open>NaN\<close>.
  Only the ASCII white space characters are recognised by this model (the value of a
  number input, which is what the handlers pass, holds no white space at all), and
  the result is the integer the digits denote, exact up to \<open>2^53\<close> in absolute value.
\<close>

definition isWhiteSpace :: "char \<Rightarrow> bool" where
  "isWhiteSpace c = (c \<in> set [CHR 0x09, CHR 0x0A, CHR 0x0B, CHR 0x0C, CHR 0x0D, CHR '' ''])"

definition isDigit :: "char \<Rightarrow> bool" where
  "isDigit c = (c \<in> set ''0123456789'')"

definition digitVal :: "char \<Rightarrow> int" where
  "digitVal c = int (of_char c) - 48"

definition parseInt :: "string \<Rightarrow> jsnum" where
  "parseInt s =
     (let t = dropWhile isWhiteSpace s;
          neg = (case t of [] \<Rightarrow> False | c # _ \<Rightarrow> c = CHR ''-'');
          u = (case t of [] \<Rightarrow> [] | c # r \<Rightarrow> if c = CHR ''-'' \<or> c = CHR ''+'' then r else t);
          ds = takeWhile isDigit u;
          n = foldl (\<lambda>a c. 10 * a + digitVal c) 0 ds
      in if ds = [] then NaN else Num (if neg then - n else n))"

subsection \<open>Array lengths\<close>

text \<open>
  \<^verbatim>\<open>Array(n)\<close> and the assignment \<^verbatim>\<open>a.length = n\<close> throw a \<^verbatim>\<open>RangeError\<close>
  unless \<open>n\<close> is an integer between \<open>0\<close> and \<open>2^32 - 1\<close>.
\<close>

fun valid_length :: "jsnum \<Rightarrow> bool" where
  "valid_length (Num k) = (0 \<le> k \<and> k \<le> 4294967295)"
| "valid_length NaN = False"

fun nat_of :: "jsnum \<Rightarrow> nat" where
  "nat_of (Num k) = nat k"
| "nat_of NaN = 0"

text \<open>\<^verbatim>\<open>Array(n).fill(v)\<close>.\<close>

definition Array_fill :: "jsnum \<Rightarrow> 'a \<Rightarrow> error + 'a list" where
  "Array_fill n v = (if valid_length n then Inr (replicate (nat_of n) v) else Inl RangeError)"

text \<open>
  \<^verbatim>\<open>a.length = n\<close>. Every assignment below sits in the \<^verbatim>\<open>else\<close> branch of a test
  \<^verbatim>\<open>n - a.length > 0\<close>, so a valid \<open>n\<close> never exceeds the current length and the
  assignment only truncates (a larger \<open>n\<close> would leave empty slots).
\<close>

definition set_length :: "jsnum \<Rightarrow> 'a list \<Rightarrow> error + 'a list" where
  "set_length n xs = (if valid_length n then Inr (take (nat_of n) xs) else Inl RangeError)"

subsection \<open>Decimal text\<close>

definition digit_char :: "nat \<Rightarrow> char" where
  "digit_char d = ''0123456789'' ! (d mod 10)"

text \<open>Decimal text of a natural number, as a template literal prints it.\<close>

fun show_nat :: "nat \<Rightarrow> string" where
  "show_nat n = (if n < 10 then [digit_char n] else show_nat (n div 10) @ [digit_char (n mod 10)])"

declare show_nat.simps [simp del]

section \<open>Structural resize of a table (Properties panel)\<close>

record table_data =
  headers :: "string list"
  cells :: "string list list"

text \<open>
  The props of a \<^verbatim>\<open>Table\<close> instance, with the shape of \<^verbatim>\<open>DEFAULT_PROPS.Table\<close>; the
  remaining keys (\<^verbatim>\<open>styles\<close>) travel in the record's extension, as the spread
  \<^verbatim>\<open>...props\<close> carries them.
\<close>

record table_props =
  rows :: jsnum
  cols :: jsnum
  hasHeader :: bool
  data :: table_data

text \<open>
  The three inputs bound to \<^verbatim>\<open>handleTableStructureChange\<close>: the number inputs named
  \<^verbatim>\<open>rows\<close> and \<^verbatim>\<open>cols\<close>, whose event carries the typed text, and the check box
  named \<^verbatim>\<open>hasHeader\<close>, whose event carries \<^verbatim>\<open>checked\<close>.
\<close>

datatype structure_edit = EditRows string | EditCols string | EditHasHeader bool

definition resize_headers :: "jsnum \<Rightarrow> string list \<Rightarrow> error + string list" where
  "resize_headers newCols hs =
     (let headerDiff = num_sub newCols (Num (int (length hs)))
      in if num_gt0 headerDiff
         then (case Array_fill headerDiff ''New Header'' of
                 Inl err \<Rightarrow> Inl err
               | Inr pad \<Rightarrow> Inr (hs @ pad))
         else set_length newCols hs)"

text \<open>The loop \<^verbatim>\<open>for (let i = 0; i < rowDiff; i++) newCells.push(Array(newCols).fill("New Cell"))\<close>.\<close>

fun push_rows :: "nat \<Rightarrow> jsnum \<Rightarrow> string list list \<Rightarrow> error + string list list" where
  "push_rows 0 newCols cs = Inr cs"
| "push_rows (Suc i) newCols cs =
     (case Array_fill newCols ''New Cell'' of
        Inl err \<Rightarrow> Inl err
      | Inr row \<Rightarrow> push_rows i newCols (cs @ [row]))"

definition resize_rows :: "jsnum \<Rightarrow> jsnum \<Rightarrow> string list list \<Rightarrow> error + string list list" where
  "resize_rows newCellRows newCols cs =
     (let rowDiff = num_sub newCellRows (Num (int (length cs)))
      in if num_gt0 rowDiff then push_rows (nat_of rowDiff) newCols cs
         else set_length newCellRows cs)"

definition resize_row :: "jsnum \<Rightarrow> string list \<Rightarrow> error + string list" where
  "resize_row newCols row =
     (let colDiff = num_sub newCols (Num (int (length row)))
      in if num_gt0 colDiff
         then (case Array_fill colDiff ''New Cell'' of
                 Inl err \<Rightarrow> Inl err
               | Inr pad \<Rightarrow> Inr (row @ pad))
         else set_length newCols row)"

text \<open>\<^verbatim>\<open>Array.prototype.map\<close> with a callback that may throw: the first throw ends it.\<close>

fun map_rows :: "('a \<Rightarrow> error + 'b) \<Rightarrow> 'a list \<Rightarrow> error + 'b list" where
  "map_rows f [] = Inr []"
| "map_rows f (x # xs) =
     (case f x of
        Inl err \<Rightarrow> Inl err
      | Inr y \<Rightarrow> (case map_rows f xs of Inl err \<Rightarrow> Inl err | Inr ys \<Rightarrow> Inr (y # ys)))"

text \<open>The local constants \<^verbatim>\<open>newRows\<close>, \<^verbatim>\<open>newCols\<close> and \<^verbatim>\<open>newCellRows\<close> of the handler.\<close>

definition newRows :: "structure_edit \<Rightarrow> 'a table_props_scheme \<Rightarrow> jsnum" where
  "newRows e props = (case e of EditRows v \<Rightarrow> parseInt v | _ \<Rightarrow> rows props)"

definition newCols :: "structure_edit \<Rightarrow> 'a table_props_scheme \<Rightarrow> jsnum" where
  "newCols e props = (case e of EditCols v \<Rightarrow> parseInt v | _ \<Rightarrow> cols props)"

text \<open>The header flag read here is \<^verbatim>\<open>props.hasHeader\<close>, the value before the edit.\<close>

definition newCellRows :: "structure_edit \<Rightarrow> 'a table_props_scheme \<Rightarrow> jsnum" where
  "newCellRows e props =
     (if hasHeader props then num_sub (newRows e props) (Num 1) else newRows e props)"

text \<open>
  \<^verbatim>\<open>handleTableStructureChange\<close> (Drag.jsx 460-500). The result \<open>Inr newProps\<close> is what
  the handler passes to \<^verbatim>\<open>onUpdate\<close>; on \<open>Inl\<close> the handler has thrown and
  \<^verbatim>\<open>onUpdate\<close> is not reached. The deep copy of \<^verbatim>\<open>props.data\<close> made first keeps
  the in-place \<^verbatim>\<open>push\<close> and \<^verbatim>\<open>length\<close> assignments away from the stored props.
\<close>

definition handleTableStructureChange ::
  "structure_edit \<Rightarrow> 'a table_props_scheme \<Rightarrow> error + 'a table_props_scheme" where
  "handleTableStructureChange e props =
     (let currentData = data props;
          newProps = (case e of
                        EditRows v \<Rightarrow> props\<lparr>rows := parseInt v\<rparr>
                      | EditCols v \<Rightarrow> props\<lparr>cols := parseInt v\<rparr>
                      | EditHasHeader b \<Rightarrow> props\<lparr>hasHeader := b\<rparr>)
      in case resize_headers (newCols e props) (headers currentData) of
           Inl err \<Rightarrow> Inl err
         | Inr hs \<Rightarrow>
             (case resize_rows (newCellRows e props) (newCols e props) (cells currentData) of
                Inl err \<Rightarrow> Inl err
              | Inr cs \<Rightarrow>
                  (case map_rows (resize_row (newCols e props)) cs of
                     Inl err \<Rightarrow> Inl err
                   | Inr newCells \<Rightarrow>
                       Inr (newProps\<lparr>data := \<lparr>headers = hs, cells = newCells\<rparr>\<rparr>))))"

text \<open>
  The shape invariant of a table: as many headers as \<^verbatim>\<open>cols\<close>, as many data rows as
  \<^verbatim>\<open>rows - (hasHeader ? 1 : 0)\<close>, every row of length \<^verbatim>\<open>cols\<close>.
\<close>

definition shape_ok :: "'a table_props_scheme \<Rightarrow> bool" where
  "shape_ok p =
     (Num (int (length (headers (data p)))) = cols p \<and>
      Num (int (length (cells (data p)))) =
        (if hasHeader p then num_sub (rows p) (Num 1) else rows p) \<and>
      list_all (\<lambda>row. Num (int (length row)) = cols p) (cells (data p)))"

subsection \<open>The default table\<close>

text \<open>
  \<^verbatim>\<open>generateDefaultTableData(rows, cols, hasHeader)\<close>; \<^verbatim>\<open>Array.from({length: n}, f)\<close>
  is empty for \<open>n \<le> 0\<close>.
\<close>

definition generateDefaultTableData :: "int \<Rightarrow> int \<Rightarrow> bool \<Rightarrow> table_data" where
  "generateDefaultTableData rws cls hdr =
     (let actualRows = (if hdr then rws - 1 else rws)
      in \<lparr>headers = map (\<lambda>i. ''Header '' @ show_nat (i + 1)) [0..<nat cls],
          cells = map (\<lambda>r. map (\<lambda>c. ''Cell '' @ show_nat (r + 1) @ ''-'' @ show_nat (c + 1))
                              [0..<nat cls])
                      [0..<nat actualRows]\<rparr>)"

section \<open>Props as JavaScript objects\<close>

text \<open>
  A value held in \<^verbatim>\<open>props\<close>. An object is the list of its own properties in
  insertion order; a missing key reads as \<^verbatim>\<open>undefined\<close> (\<open>None\<close>).
\<close>

datatype jsval =
    VNull
  | VBool bool
  | VNum jsnum
  | VStr string
  | VArr "jsval list"
  | VObj "(string \<times> jsval) list"

type_synonym fields = "(string \<times> jsval) list"

definition get :: "string \<Rightarrow> (string \<times> 'v) list \<Rightarrow> 'v option" where
  "get k obj = map_of obj k"

text \<open>
  \<^verbatim>\<open>{ ...obj, [k]: v }\<close>: an existing key keeps its place and takes the new value, a
  new key is added last.
\<close>

fun put :: "string \<Rightarrow> 'v \<Rightarrow> (string \<times> 'v) list \<Rightarrow> (string \<times> 'v) list" where
  "put k v [] = [(k, v)]"
| "put k v ((k', v') # obj) = (if k' = k then (k, v) # obj else (k', v') # put k v obj)"

text \<open>
  \<^verbatim>\<open>{ ...x }\<close> for the value read under a key: the own properties of an object, the
  indexed elements of an array or characters of a string, nothing for \<^verbatim>\<open>undefined\<close>,
  \<^verbatim>\<open>null\<close>, booleans and numbers.
\<close>

fun spread :: "jsval option \<Rightarrow> fields" where
  "spread (Some (VObj obj)) = obj"
| "spread (Some (VArr xs)) = map (\<lambda>i. (show_nat i, xs ! i)) [0..<length xs]"
| "spread (Some (VStr s)) = map (\<lambda>i. (show_nat i, VStr [s ! i])) [0..<length s]"
| "spread _ = []"

text \<open>The own properties of a value that is stored as \<^verbatim>\<open>props\<close>.\<close>

definition fields_of :: "jsval \<Rightarrow> fields" where
  "fields_of v = spread (Some v)"

definition startsWith :: "string \<Rightarrow> string \<Rightarrow> bool" where
  "startsWith s p = (take (length p) s = p)"

subsection \<open>JSON\<close>

text \<open>
  A JSON document. \<^verbatim>\<open>JSON.stringify\<close> is modelled by the document its text denotes
  (the layout of the text, with its two-space indentation, is not modelled): JSON has
  no \<^verbatim>\<open>NaN\<close>, and \<^verbatim>\<open>JSON.stringify\<close> writes \<^verbatim>\<open>null\<close> for it.
\<close>

datatype json =
    JNull
  | JBool bool
  | JNumber int
  | JString string
  | JArray "json list"
  | JObject "(string \<times> json) list"

primrec JSON_stringify :: "jsval \<Rightarrow> json" where
  "JSON_stringify VNull = JNull"
| "JSON_stringify (VBool b) = JBool b"
| "JSON_stringify (VNum n) = (case n of Num k \<Rightarrow> JNumber k | NaN \<Rightarrow> JNull)"
| "JSON_stringify (VStr s) = JString s"
| "JSON_stringify (VArr xs) = JArray (map JSON_stringify xs)"
| "JSON_stringify (VObj obj) = JObject (map (map_prod id JSON_stringify) obj)"

primrec JSON_parse :: "json \<Rightarrow> jsval" where
  "JSON_parse JNull = VNull"
| "JSON_parse (JBool b) = VBool b"
| "JSON_parse (JNumber k) = VNum (Num k)"
| "JSON_parse (JString s) = VStr s"
| "JSON_parse (JArray xs) = VArr (map JSON_parse xs)"
| "JSON_parse (JObject obj) = VObj (map (map_prod id JSON_parse) obj)"

section \<open>The component sequence (\<^verbatim>\<open>canvasComponents\<close>)\<close>

record component =
  id' :: string
  type' :: string
  props :: fields

text \<open>\<^verbatim>\<open>Array.prototype.findIndex\<close>: the first index that satisfies the test, or \<open>-1\<close>.\<close>

fun findIndex :: "('a \<Rightarrow> bool) \<Rightarrow> 'a list \<Rightarrow> int" where
  "findIndex P [] = - 1"
| "findIndex P (x # xs) =
     (if P x then 0 else (let r = findIndex P xs in if r = - 1 then - 1 else r + 1))"

text \<open>
  \<^verbatim>\<open>Array.prototype.splice(start, deleteCount, ...items)\<close>: the removed elements and the
  array afterwards. A negative \<open>start\<close> counts from the end; \<open>start\<close> is clamped to
  the array.
\<close>

definition splice' :: "int \<Rightarrow> nat \<Rightarrow> 'a list \<Rightarrow> 'a list \<Rightarrow> 'a list \<times> 'a list" where
  "splice' start deleteCount items xs =
     (let len = int (length xs);
          k = nat (if start < 0 then max (len + start) 0 else min start len);
          d = min deleteCount (length xs - k)
      in (take d (drop k xs), take k xs @ items @ drop (k + d) xs))"

text \<open>
  Modelled from the spec: \<^verbatim>\<open>arrayMove\<close> is imported from \<^verbatim>\<open>@dnd-kit/sortable\<close>, which
  is not part of the sources; it is the spec's \<^verbatim>\<open>moveRange(fromIndex, toIndex)\<close>, which
  removes the element at \<open>fromIndex\<close> and re-inserts it at \<open>toIndex\<close> computed against
  the post-removal sequence. The definition follows the library's two \<^verbatim>\<open>splice\<close>
  calls on a copy: the insertion position is read first (a negative \<open>to\<close> counts from
  the end of the full array), then the element is removed, then inserted. When \<open>from\<close>
  removes nothing the library inserts \<^verbatim>\<open>undefined\<close>; here nothing is inserted.
\<close>

definition arrayMove :: "'a list \<Rightarrow> int \<Rightarrow> int \<Rightarrow> 'a list" where
  "arrayMove array from to =
     (let pos = (if to < 0 then int (length array) + to else to);
          (removed, newArray) = splice' from 1 [] array
      in snd (splice' pos 0 (take 1 removed) newArray))"

text \<open>\<^verbatim>\<open>handleUpdateComponent\<close> (Drag.jsx 869-872).\<close>

definition handleUpdateComponent :: "string \<Rightarrow> fields \<Rightarrow> component list \<Rightarrow> component list" where
  "handleUpdateComponent i newProps c =
     map (\<lambda>comp. if id' comp = i then comp\<lparr>props := newProps\<rparr> else comp) c"

subsection \<open>Registry: palette and default props\<close>

text \<open>\<^verbatim>\<open>Object.keys(COMPONENT_MAP)\<close> for \<^verbatim>\<open>{ Text, Description, Image, Table }\<close>.\<close>

definition availableComponents :: "string list" where
  "availableComponents = [''Text'', ''Description'', ''Image'', ''Table'']"

text \<open>The table data as a value of \<^verbatim>\<open>props\<close>.\<close>

definition table_data_val :: "table_data \<Rightarrow> jsval" where
  "table_data_val d =
     VObj [(''headers'', VArr (map VStr (headers d))),
           (''cells'', VArr (map (\<lambda>row. VArr (map VStr row)) (cells d)))]"

text \<open>\<^verbatim>\<open>DEFAULT_PROPS\<close> of Drag.jsx 229-298.\<close>

definition DEFAULT_PROPS :: "(string \<times> jsval) list" where
  "DEFAULT_PROPS =
     [(''Button'', VObj
         [(''text'', VStr ''Click Me''),
          (''variant'', VStr ''default''),
          (''styles'', VObj
             [(''marginTop'', VNum (Num 0)), (''marginBottom'', VNum (Num 8)),
              (''marginLeft'', VNum (Num 0)), (''marginRight'', VNum (Num 0)),
              (''fontSize'', VNum (Num 14)), (''color'', VStr ''#FFFFFF'')])]),
      (''Input'', VObj
         [(''label'', VStr ''Field Label''),
          (''placeholder'', VStr ''Enter value...''),
          (''styles'', VObj
             [(''marginTop'', VNum (Num 10)), (''marginBottom'', VNum (Num 4)),
              (''marginLeft'', VNum (Num 0)), (''marginRight'', VNum (Num 0)),
              (''fontSize'', VNum (Num 14)), (''color'', VStr ''#334155'')])]),
      (''Textarea'', VObj
         [(''label'', VStr ''Message''),
          (''placeholder'', VStr ''Your message here''),
          (''styles'', VObj
             [(''marginTop'', VNum (Num 10)), (''marginBottom'', VNum (Num 4)),
              (''marginLeft'', VNum (Num 0)), (''marginRight'', VNum (Num 0)),
              (''fontSize'', VNum (Num 14)), (''color'', VStr ''#334155'')])]),
      (''Separator'', VObj
         [(''styles'', VObj
             [(''marginTop'', VNum (Num 10)), (''marginBottom'', VNum (Num 4)),
              (''marginLeft'', VNum (Num 0)), (''marginRight'', VNum (Num 0))])]),
      (''Image'', VObj
         [(''src'', VStr ''https://images.unsplash.com/photo-1599420186946-7b6fb4e297f0?ixlib=rb-1.2.1&auto=format&fit=crop&w=800&q=80''),
          (''alt'', VStr ''A placeholder image''),
          (''styles'', VObj
             [(''marginTop'', VNum (Num 10)), (''marginBottom'', VNum (Num 4)),
              (''marginLeft'', VNum (Num 0)), (''marginRight'', VNum (Num 0))])]),
      (''Table'', VObj
         [(''rows'', VNum (Num 4)),
          (''cols'', VNum (Num 4)),
          (''hasHeader'', VBool True),
          (''data'', table_data_val (generateDefaultTableData 4 4 True)),
          (''styles'', VObj
             [(''marginTop'', VNum (Num 10)), (''marginBottom'', VNum (Num 4)),
              (''marginLeft'', VNum (Num 0)), (''marginRight'', VNum (Num 0))])]),
      (''Text'', VObj
         [(''text'', VStr ''This is an editable text block. Click to select and edit in the properties panel.''),
          (''styles'', VObj
             [(''marginTop'', VNum (Num 8)), (''marginBottom'', VNum (Num 8)),
              (''marginLeft'', VNum (Num 0)), (''marginRight'', VNum (Num 0)),
              (''fontSize'', VNum (Num 18)), (''color'', VStr ''#1e293b'')])]),
      (''Description'', VObj
         [(''text'', VStr ''This is a smaller description text. Use it for details, captions, or supplementary information.''),
          (''styles'', VObj
             [(''marginTop'', VNum (Num 4)), (''marginBottom'', VNum (Num 4)),
              (''marginLeft'', VNum (Num 0)), (''marginRight'', VNum (Num 0)),
              (''fontSize'', VNum (Num 14)), (''color'', VStr ''#475569'')])]),
      (''Graph'', VObj
         [(''chartType'', VStr ''bar''),
          (''styles'', VObj
             [(''marginTop'', VNum (Num 10)), (''marginBottom'', VNum (Num 4)),
              (''marginLeft'', VNum (Num 0)), (''marginRight'', VNum (Num 0))])])]"

text \<open>\<^verbatim>\<open>DEFAULT_PROPS\<close> of DragAdvanced.jsx 72-152.\<close>

definition DragAdvanced_DEFAULT_PROPS :: "(string \<times> jsval) list" where
  "DragAdvanced_DEFAULT_PROPS =
     [(''Button'', VObj
         [(''text'', VStr ''Click Me''),
          (''variant'', VStr ''default''),
          (''styles'', VObj
             [(''marginTop'', VNum (Num 0)), (''marginBottom'', VNum (Num 8)),
              (''marginLeft'', VNum (Num 0)), (''marginRight'', VNum (Num 0)),
              (''fontSize'', VNum (Num 14)), (''color'', VStr ''#FFFFFF'')])]),
      (''Input'', VObj
         [(''label'', VStr ''Field Label''),
          (''placeholder'', VStr ''Enter value...''),
          (''styles'', VObj
             [(''marginTop'', VNum (Num 10)), (''marginBottom'', VNum (Num 4)),
              (''marginLeft'', VNum (Num 0)), (''marginRight'', VNum (Num 0)),
              (''fontSize'', VNum (Num 14)), (''color'', VStr ''#334155'')])]),
      (''Textarea'', VObj
         [(''label'', VStr ''Message''),
          (''placeholder'', VStr ''Your message here''),
          (''styles'', VObj
             [(''marginTop'', VNum (Num 10)), (''marginBottom'', VNum (Num 4)),
              (''marginLeft'', VNum (Num 0)), (''marginRight'', VNum (Num 0)),
              (''fontSize'', VNum (Num 14)), (''color'', VStr ''#334155'')])]),
      (''Select'', VObj
         [(''label'', VStr ''Choose an option''),
          (''options'', VStr ''Option 1,Option 2,Option 3''),
          (''styles'', VObj
             [(''marginTop'', VNum (Num 10)), (''marginBottom'', VNum (Num 4)),
              (''marginLeft'', VNum (Num 0)), (''marginRight'', VNum (Num 0)),
              (''fontSize'', VNum (Num 14)), (''color'', VStr ''#334155'')])]),
      (''Checkbox'', VObj
         [(''label'', VStr ''Accept terms''),
          (''checked'', VBool False),
          (''styles'', VObj
             [(''marginTop'', VNum (Num 10)), (''marginBottom'', VNum (Num 4)),
              (''marginLeft'', VNum (Num 0)), (''marginRight'', VNum (Num 0)),
              (''fontSize'', VNum (Num 14)), (''color'', VStr ''#334155'')])]),
      (''Separator'', VObj
         [(''styles'', VObj
             [(''marginTop'', VNum (Num 10)), (''marginBottom'', VNum (Num 4)),
              (''marginLeft'', VNum (Num 0)), (''marginRight'', VNum (Num 0)),
              (''fontSize'', VNum (Num 14)), (''color'', VStr ''#334155'')])]),
      (''Image'', VObj
         [(''src'', VStr ''https://www.dekoder.com/assets/mediaasset/image/DBD8X9/DBD8X9_600fd5934baa4c06b4ea595b9634a7a7.jpeg''),
          (''alt'', VStr ''A beautiful sunset''),
          (''styles'', VObj
             [(''marginTop'', VNum (Num 10)), (''marginBottom'', VNum (Num 4)),
              (''marginLeft'', VNum (Num 0)), (''marginRight'', VNum (Num 0)),
              (''fontSize'', VNum (Num 14)), (''color'', VStr ''#334155'')])])]"

subsection \<open>Drag end\<close>

text \<open>
  \<open>now\<close> is the reading of \<^verbatim>\<open>Date.now()\<close>, \<open>active\<close> is \<^verbatim>\<open>active.id\<close> and \<open>over\<close> is
  \<^verbatim>\<open>over.id\<close>, or \<open>None\<close> when the drag ends over no droppable. The state updaters get
  the current sequence. \<^verbatim>\<open>JSON.stringify(undefined)\<close> is \<^verbatim>\<open>undefined\<close>, which
  \<^verbatim>\<open>JSON.parse\<close> rejects with a \<^verbatim>\<open>SyntaxError\<close>; every palette entry has default
  props, so this branch is never taken.
\<close>

definition handleDragEnd ::
  "nat \<Rightarrow> string \<Rightarrow> string option \<Rightarrow> component list \<Rightarrow> error + component list" where
  "handleDragEnd now active over canvasComponents =
     (case over of
        None \<Rightarrow> Inr canvasComponents
      | Some overId \<Rightarrow>
          if active \<in> set availableComponents
          then (case map_of DEFAULT_PROPS active of
                  None \<Rightarrow> Inl SyntaxError
                | Some d \<Rightarrow>
                    (let newComponent =
                           \<lparr>id' = active @ ''-'' @ show_nat now,
                            type' = active,
                            props = fields_of (JSON_parse (JSON_stringify d))\<rparr>;
                         overIndex = findIndex (\<lambda>c. id' c = overId) canvasComponents
                     in if overIndex \<noteq> - 1
                        then Inr (snd (splice' overIndex 0 [newComponent] canvasComponents))
                        else Inr (canvasComponents @ [newComponent])))
          else (let isActiveAComponentOnCanvas = list_ex (\<lambda>c. id' c = active) canvasComponents;
                    isOverAComponentOnCanvas = list_ex (\<lambda>c. id' c = overId) canvasComponents
                in if isActiveAComponentOnCanvas \<and> isOverAComponentOnCanvas \<and> active \<noteq> overId
                   then (let oldIndex = findIndex (\<lambda>c. id' c = active) canvasComponents;
                             newIndex = findIndex (\<lambda>c. id' c = overId) canvasComponents
                         in Inr (arrayMove canvasComponents oldIndex newIndex))
                   else Inr canvasComponents))"

text \<open>
  \<^verbatim>\<open>handleDragEnd\<close> of DragAdvanced.jsx 544-560, whose palette is
  \<^verbatim>\<open>Object.keys(COMPONENT_MAP)\<close> for \<^verbatim>\<open>{ Button, Input, Textarea, Separator, Image }\<close>. A new
  instance is always appended, and a reorder is guarded by \<^verbatim>\<open>active.id !== over.id\<close>
  alone. The props of a new instance are the template of its type (every palette
  entry has one).
\<close>

definition DragAdvanced_availableComponents :: "string list" where
  "DragAdvanced_availableComponents = [''Button'', ''Input'', ''Textarea'', ''Separator'', ''Image'']"

definition DragAdvanced_handleDragEnd ::
  "nat \<Rightarrow> string \<Rightarrow> string option \<Rightarrow> component list \<Rightarrow> component list" where
  "DragAdvanced_handleDragEnd now active over items =
     (case over of
        None \<Rightarrow> items
      | Some overId \<Rightarrow>
          if active \<in> set DragAdvanced_availableComponents
          then items @
                 [\<lparr>id' = active @ ''-'' @ show_nat now,
                   type' = active,
                   props = spread (map_of DragAdvanced_DEFAULT_PROPS active)\<rparr>]
          else if active \<noteq> overId
          then (let oldIndex = findIndex (\<lambda>c. id' c = active) items;
                    newIndex = findIndex (\<lambda>c. id' c = overId) items
                in arrayMove items oldIndex newIndex)
          else items)"

subsection \<open>Field edits of the Properties panel\<close>

text \<open>The fields of \<^verbatim>\<open>e.target\<close> that the handlers read.\<close>

record target =
  target_name :: string
  target_value :: string
  target_type :: string
  target_checked :: bool

text \<open>\<^verbatim>\<open>handlePropChange\<close> (Drag.jsx 501-506): the props handed to \<^verbatim>\<open>onUpdate\<close>.\<close>

definition handlePropChange :: "target \<Rightarrow> fields \<Rightarrow> fields" where
  "handlePropChange e prps =
     put (target_name e)
       (if target_type e = ''checkbox'' then VBool (target_checked e) else VStr (target_value e))
       prps"

text \<open>\<^verbatim>\<open>handleStyleChange\<close> of Drag.jsx 507-517, the panel of the routed component.\<close>

definition handleStyleChange :: "target \<Rightarrow> fields \<Rightarrow> fields" where
  "handleStyleChange e prps =
     put ''styles''
       (VObj (put (target_name e)
                (if target_type e = ''number'' then VNum (parseInt (target_value e))
                 else VStr (target_value e))
                (spread (get ''styles'' prps))))
       prps"

text \<open>
  \<^verbatim>\<open>handleStyleChange\<close> of Drag.jsx 1315-1321, the panel of the \<^verbatim>\<open>DragDrop\<close> variant
  kept in the same file: \<^verbatim>\<open>parseInt(value, 10) || 0\<close>.
\<close>

definition handleStyleChange_DragDrop :: "target \<Rightarrow> fields \<Rightarrow> fields" where
  "handleStyleChange_DragDrop e prps =
     put ''styles''
       (VObj (put (target_name e) (VNum (num_or0 (parseInt (target_value e))))
                (spread (get ''styles'' prps))))
       prps"

section \<open>Object URLs of uploaded images\<close>

text \<open>
  The object URLs of the page: the calls of \<^verbatim>\<open>URL.createObjectURL\<close> and
  \<^verbatim>\<open>URL.revokeObjectURL\<close> made so far. \<open>live\<close> holds the URLs created and not yet
  revoked, \<open>revoked\<close> is the log of the release calls, \<open>next_blob\<close> numbers the next
  URL (the browser makes each new URL different from the earlier ones).
\<close>

record blob_registry =
  next_blob :: nat
  live :: "string list"
  revoked :: "string list"

definition createObjectURL :: "blob_registry \<Rightarrow> string \<times> blob_registry" where
  "createObjectURL reg =
     (let url = ''blob:'' @ show_nat (next_blob reg)
      in (url, reg\<lparr>next_blob := Suc (next_blob reg), live := url # live reg\<rparr>))"

definition revokeObjectURL :: "string \<Rightarrow> blob_registry \<Rightarrow> blob_registry" where
  "revokeObjectURL url reg = reg\<lparr>live := removeAll url (live reg), revoked := revoked reg @ [url]\<rparr>"

text \<open>
  The statement \<^verbatim>\<open>if (props.src && props.src.startsWith("blob:")) URL.revokeObjectURL(props.src)\<close>
  for the value read under \<^verbatim>\<open>src\<close>: a falsy value skips the call, a string is tested,
  any other truthy value has no \<^verbatim>\<open>startsWith\<close> and the call throws a \<^verbatim>\<open>TypeError\<close>.
\<close>

fun release_previous :: "jsval option \<Rightarrow> blob_registry \<Rightarrow> error + blob_registry" where
  "release_previous None reg = Inr reg"
| "release_previous (Some VNull) reg = Inr reg"
| "release_previous (Some (VBool b)) reg = (if b then Inl TypeError else Inr reg)"
| "release_previous (Some (VNum n)) reg = (if n = NaN \<or> n = Num 0 then Inr reg else Inl TypeError)"
| "release_previous (Some (VStr s)) reg =
     Inr (if s \<noteq> [] \<and> startsWith s ''blob:'' then revokeObjectURL s reg else reg)"
| "release_previous (Some (VArr xs)) reg = Inl TypeError"
| "release_previous (Some (VObj obj)) reg = Inl TypeError"

text \<open>A dropped or picked file: its MIME type is all the handlers read.\<close>

record js_file =
  file_type :: string

text \<open>The state the image handlers act on: the component sequence and the object URLs.\<close>

record app =
  canvasComponents :: "component list"
  blobs :: blob_registry

text \<open>
  \<^verbatim>\<open>handleImageFileSelect\<close> (Drag.jsx 518-527), for the selected component of the
  panel; \<open>picked\<close> is \<^verbatim>\<open>e.target.files[0]\<close>. A \<^verbatim>\<open>TypeError\<close> leaves the handler before
  \<^verbatim>\<open>onUpdate\<close>.
\<close>

definition handleImageFileSelect :: "js_file option \<Rightarrow> component \<Rightarrow> app \<Rightarrow> error + app" where
  "handleImageFileSelect picked selectedComponent st =
     (case picked of
        None \<Rightarrow> Inr st
      | Some f \<Rightarrow>
          if startsWith (file_type f) ''image/''
          then (let (newSrc, reg) = createObjectURL (blobs st)
                in case release_previous (get ''src'' (props selectedComponent)) reg of
                     Inl err \<Rightarrow> Inl err
                   | Inr reg' \<Rightarrow>
                       Inr \<lparr>canvasComponents =
                              handleUpdateComponent (id' selectedComponent)
                                (put ''src'' (VStr newSrc) (props selectedComponent))
                                (canvasComponents st),
                            blobs = reg'\<rparr>)
          else Inr st)"

text \<open>
  \<^verbatim>\<open>handleDrop\<close> of a canvas item (Drag.jsx 359-371); \<open>dropped\<close> is
  \<^verbatim>\<open>e.dataTransfer.files[0]\<close>. Its \<^verbatim>\<open>props\<close> are the rest of \<^verbatim>\<open>component.props\<close>
  after \<^verbatim>\<open>styles\<close> has been taken out.
\<close>

definition handleDrop :: "js_file option \<Rightarrow> component \<Rightarrow> app \<Rightarrow> error + app" where
  "handleDrop dropped component st =
     (let prps = filter (\<lambda>kv. fst kv \<noteq> ''styles'') (props component)
      in case dropped of
           None \<Rightarrow> Inr st
         | Some f \<Rightarrow>
             if startsWith (file_type f) ''image/''
             then (let (newSrc, reg) = createObjectURL (blobs st)
                   in case release_previous (get ''src'' prps) reg of
                        Inl err \<Rightarrow> Inl err
                      | Inr reg' \<Rightarrow>
                          Inr \<lparr>canvasComponents =
                                 handleUpdateComponent (id' component)
                                   (put ''src'' (VStr newSrc) prps)
                                   (canvasComponents st),
                               blobs = reg'\<rparr>)
             else Inr st)"

text \<open>
  The object URL an instance holds in \<^verbatim>\<open>src\<close>, and the leaked URLs of a state: created,
  not revoked, and held by no instance.
\<close>

definition src_of :: "component \<Rightarrow> string option" where
  "src_of c = (case get ''src'' (props c) of Some (VStr s) \<Rightarrow> Some s | _ \<Rightarrow> None)"

definition leaked :: "app \<Rightarrow> string list" where
  "leaked st = filter (\<lambda>u. Some u \<notin> src_of ` set (canvasComponents st)) (live (blobs st))"

text \<open>\<^verbatim>\<open>selectedComponent\<close> (Drag.jsx 910-913): the instance the panel edits.\<close>

definition selectedComponent :: "string \<Rightarrow> component list \<Rightarrow> component option" where
  "selectedComponent selectedComponentId cs = find (\<lambda>c. id' c = selectedComponentId) cs"

section \<open>Export of the document\<close>

text \<open>
  \<^verbatim>\<open>pageJson\<close> (Drag.jsx 827-831): \<^verbatim>\<open>JSON.stringify({ name: "Exported Page", components }, null, 2)\<close>,
  where an instance is the object \<^verbatim>\<open>{ id, type, props }\<close>.
\<close>

definition component_val :: "component \<Rightarrow> jsval" where
  "component_val c =
     VObj [(''id'', VStr (id' c)), (''type'', VStr (type' c)), (''props'', VObj (props c))]"

definition pageJson :: "component list \<Rightarrow> json" where
  "pageJson components =
     JSON_stringify
       (VObj [(''name'', VStr ''Exported Page''),
              (''components'', VArr (map component_val components))])"

text \<open>
  Modelled from the spec: \<^verbatim>\<open>fromJSON\<close>. The sources export a document and never read
  one back. By the spec a full document is \<^verbatim>\<open>{ "name": string, "components": [ComponentInstance, ...] }\<close>
  with instances \<^verbatim>\<open>{ id, type, props }\<close>, and \<^verbatim>\<open>fromJSON\<close> gives back the blueprint, the
  sequence of instances: the document is parsed and the instances are read from its
  \<^verbatim>\<open>components\<close>, in order. A document of another shape is rejected (\<open>None\<close>).
\<close>

definition component_of_val :: "jsval \<Rightarrow> component option" where
  "component_of_val v =
     (case v of
        VObj obj \<Rightarrow>
          (case (get ''id'' obj, get ''type'' obj, get ''props'' obj) of
             (Some (VStr i), Some (VStr t), Some (VObj p)) \<Rightarrow> Some \<lparr>id' = i, type' = t, props = p\<rparr>
           | _ \<Rightarrow> None)
      | _ \<Rightarrow> None)"

definition fromJSON :: "json \<Rightarrow> component list option" where
  "fromJSON doc =
     (case JSON_parse doc of
        VObj obj \<Rightarrow>
          (case get ''components'' obj of
             Some (VArr xs) \<Rightarrow> those (map component_of_val xs)
           | _ \<Rightarrow> None)
      | _ \<Rightarrow> None)"

text \<open>A value that holds no \<^verbatim>\<open>NaN\<close>, at any depth.\<close>

primrec nan_free :: "jsval \<Rightarrow> bool" where
  "nan_free VNull = True"
| "nan_free (VBool b) = True"
| "nan_free (VNum n) = (n \<noteq> NaN)"
| "nan_free (VStr s) = True"
| "nan_free (VArr xs) = list_all (\<lambda>b. b) (map nan_free xs)"
| "nan_free (VObj obj) = list_all snd (map (map_prod id nan_free) obj)"

text \<open>
  A value whose numbers are all integers that a double holds exactly, from
  \<open>-(2^53 - 1)\<close> to \<open>2^53 - 1\<close>: on these the numbers of this model are the
  numbers of JavaScript.
\<close>

primrec exact_value :: "jsval \<Rightarrow> bool" where
  "exact_value VNull = True"
| "exact_value (VBool b) = True"
| "exact_value (VNum n) = (case n of Num k \<Rightarrow> \<bar>k\<bar> \<le> 9007199254740991 | NaN \<Rightarrow> False)"
| "exact_value (VStr s) = True"
| "exact_value (VArr xs) = list_all (\<lambda>b. b) (map exact_value xs)"
| "exact_value (VObj obj) = list_all snd (map (map_prod id exact_value) obj)"

section \<open>Objects and references\<close>

text \<open>
  Whether an instance owns its props or shares them with \<^verbatim>\<open>DEFAULT_PROPS\<close> cannot be
  seen on values; it needs the objects themselves. A heap maps addresses to objects
  and arrays, whose members are primitive values or references; \<open>next_addr\<close> is the
  next unused address.
\<close>

type_synonym addr = nat

datatype hval = HNull | HBool bool | HNum jsnum | HStr string | HRef addr

datatype hobj = HObj "(string \<times> hval) list" | HArr "hval list"

record heap =
  objs :: "addr \<Rightarrow> hobj option"
  next_addr :: addr

definition empty_heap :: heap where
  "empty_heap = \<lparr>objs = (\<lambda>a. None), next_addr = 0\<rparr>"

definition new_obj :: "hobj \<Rightarrow> heap \<Rightarrow> hval \<times> heap" where
  "new_obj ob h =
     (HRef (next_addr h),
      h\<lparr>objs := (objs h)(next_addr h \<mapsto> ob), next_addr := Suc (next_addr h)\<rparr>)"

text \<open>Running allocations one after the other, each on the heap the previous one left.\<close>

fun alloc_all :: "(heap \<Rightarrow> hval \<times> heap) list \<Rightarrow> heap \<Rightarrow> hval list \<times> heap" where
  "alloc_all [] h = ([], h)"
| "alloc_all (m # ms) h =
     (let (v, h1) = m h; (vs, h2) = alloc_all ms h1 in (v # vs, h2))"

fun alloc_fields ::
  "(string \<times> (heap \<Rightarrow> hval \<times> heap)) list \<Rightarrow> heap \<Rightarrow> (string \<times> hval) list \<times> heap" where
  "alloc_fields [] h = ([], h)"
| "alloc_fields ((k, m) # ms) h =
     (let (v, h1) = m h; (fs, h2) = alloc_fields ms h1 in ((k, v) # fs, h2))"

text \<open>
  Building a value in the heap, as an object literal and \<^verbatim>\<open>JSON.parse\<close> do: every
  object and array of the value becomes a new heap object.
\<close>

primrec alloc :: "jsval \<Rightarrow> heap \<Rightarrow> hval \<times> heap" where
  "alloc VNull = (\<lambda>h. (HNull, h))"
| "alloc (VBool b) = (\<lambda>h. (HBool b, h))"
| "alloc (VNum n) = (\<lambda>h. (HNum n, h))"
| "alloc (VStr s) = (\<lambda>h. (HStr s, h))"
| "alloc (VArr xs) = (\<lambda>h. let (vs, h1) = alloc_all (map alloc xs) h in new_obj (HArr vs) h1)"
| "alloc (VObj obj) =
     (\<lambda>h. let (fs, h1) = alloc_fields (map (map_prod id alloc) obj) h in new_obj (HObj fs) h1)"

text \<open>
  Reading a value out of the heap, as \<^verbatim>\<open>JSON.stringify\<close> walks it. The first argument
  bounds the depth of the walk; \<open>None\<close> stands for a dangling reference or for a
  structure deeper than the bound, as a circular one is.
\<close>

fun to_tree :: "nat \<Rightarrow> heap \<Rightarrow> hval \<Rightarrow> jsval option" where
  "to_tree n h HNull = Some VNull"
| "to_tree n h (HBool b) = Some (VBool b)"
| "to_tree n h (HNum k) = Some (VNum k)"
| "to_tree n h (HStr s) = Some (VStr s)"
| "to_tree 0 h (HRef a) = None"
| "to_tree (Suc n) h (HRef a) =
     (case objs h a of
        None \<Rightarrow> None
      | Some (HArr vs) \<Rightarrow> map_option VArr (those (map (to_tree n h) vs))
      | Some (HObj fs) \<Rightarrow>
          map_option VObj (those (map (\<lambda>kv. map_option (Pair (fst kv)) (to_tree n h (snd kv))) fs)))"

text \<open>
  \<^verbatim>\<open>JSON.parse(JSON.stringify(x))\<close> on the heap. A walk as deep as the heap has objects
  reaches every part of a structure that is not circular; \<^verbatim>\<open>JSON.stringify\<close> throws a
  \<^verbatim>\<open>TypeError\<close> on a circular one.
\<close>

definition JSON_clone :: "hval \<Rightarrow> heap \<Rightarrow> error + hval \<times> heap" where
  "JSON_clone x h =
     (case to_tree (next_addr h) h x of
        None \<Rightarrow> Inl TypeError
      | Some t \<Rightarrow> Inr (alloc (JSON_parse (JSON_stringify t)) h))"

text \<open>The property read \<^verbatim>\<open>x[k]\<close> of a reference, \<open>None\<close> for \<^verbatim>\<open>undefined\<close>.\<close>

definition read_prop :: "hval \<Rightarrow> string \<Rightarrow> heap \<Rightarrow> hval option" where
  "read_prop x k h =
     (case x of
        HRef a \<Rightarrow> (case objs h a of Some (HObj fs) \<Rightarrow> get k fs | _ \<Rightarrow> None)
      | _ \<Rightarrow> None)"

text \<open>The assignment \<^verbatim>\<open>x[k] = v\<close> in place, on a reference to an object.\<close>

definition write_prop :: "hval \<Rightarrow> string \<Rightarrow> hval \<Rightarrow> heap \<Rightarrow> heap" where
  "write_prop x k v h =
     (case x of
        HRef a \<Rightarrow>
          (case objs h a of
             Some (HObj fs) \<Rightarrow> h\<lparr>objs := (objs h)(a \<mapsto> HObj (put k v fs))\<rparr>
           | _ \<Rightarrow> h)
      | _ \<Rightarrow> h)"

text \<open>The heap after the module has evaluated the literal of \<^verbatim>\<open>DEFAULT_PROPS\<close>.\<close>

definition module_heap :: "(string \<times> jsval) list \<Rightarrow> hval \<times> heap" where
  "module_heap table = alloc (VObj table) empty_heap"

text \<open>An instance in the heap: \<^verbatim>\<open>props\<close> is a reference.\<close>

record hcomponent =
  hid :: string
  htype :: string
  hprops :: hval

text \<open>
  The object \<^verbatim>\<open>newComponent\<close> of a palette insertion in Drag.jsx 877-881, with
  \<open>defaults\<close> the reference held by \<^verbatim>\<open>DEFAULT_PROPS\<close>:
  \<^verbatim>\<open>props: JSON.parse(JSON.stringify(DEFAULT_PROPS[active.id]))\<close>.
\<close>

definition newComponent :: "nat \<Rightarrow> string \<Rightarrow> hval \<Rightarrow> heap \<Rightarrow> error + hcomponent \<times> heap" where
  "newComponent now active defaults h =
     (case read_prop defaults active h of
        None \<Rightarrow> Inl SyntaxError
      | Some d \<Rightarrow>
          (case JSON_clone d h of
             Inl err \<Rightarrow> Inl err
           | Inr (p, h') \<Rightarrow>
               Inr (\<lparr>hid = active @ ''-'' @ show_nat now, htype = active, hprops = p\<rparr>, h')))"

text \<open>
  The object inserted by DragAdvanced.jsx 549-553: \<^verbatim>\<open>props: DEFAULT_PROPS[active.id]\<close>,
  the reference itself (\<open>None\<close> when it is \<^verbatim>\<open>undefined\<close>).
\<close>

definition newComponent_DragAdvanced ::
  "nat \<Rightarrow> string \<Rightarrow> hval \<Rightarrow> heap \<Rightarrow> hcomponent option" where
  "newComponent_DragAdvanced now active defaults h =
     (case read_prop defaults active h of
        None \<Rightarrow> None
      | Some d \<Rightarrow> Some \<lparr>hid = active @ ''-'' @ show_nat now, htype = active, hprops = d\<rparr>)"

subsection \<open>Reachable addresses and growth of the heap\<close>

text \<open>The addresses an object refers to, and the addresses that are part of a value.\<close>

definition refs_of :: "hobj \<Rightarrow> addr set" where
  "refs_of ob =
     (case ob of
        HObj fs \<Rightarrow> {a. HRef a \<in> snd ` set fs}
      | HArr vs \<Rightarrow> {a. HRef a \<in> set vs})"

inductive reaches :: "heap \<Rightarrow> hval \<Rightarrow> addr \<Rightarrow> bool" for h :: heap where
  here: "reaches h (HRef a) a"
| step: "objs h a = Some ob \<Longrightarrow> b \<in> refs_of ob \<Longrightarrow> reaches h (HRef b) c \<Longrightarrow> reaches h (HRef a) c"

text \<open>A value that refers into a set of addresses, and a set closed under references.\<close>

definition val_in :: "addr set \<Rightarrow> hval \<Rightarrow> bool" where
  "val_in S v = (case v of HRef a \<Rightarrow> a \<in> S | _ \<Rightarrow> True)"

definition closed_on :: "addr set \<Rightarrow> heap \<Rightarrow> bool" where
  "closed_on S h = (\<forall>a \<in> S. \<forall>ob. objs h a = Some ob \<longrightarrow> refs_of ob \<subseteq> S)"

text \<open>
  A heap that has grown out of another, with the old part as it was; and what an
  allocation leaves: a grown heap whose new part refers only to itself.
\<close>

definition extends :: "heap \<Rightarrow> heap \<Rightarrow> bool" where
  "extends h h' \<longleftrightarrow> next_addr h \<le> next_addr h' \<and> (\<forall>a < next_addr h. objs h' a = objs h a)"

definition allocated :: "heap \<Rightarrow> heap \<Rightarrow> bool" where
  "allocated h h' \<longleftrightarrow> extends h h' \<and> closed_on {next_addr h..<next_addr h'} h'"

section \<open>Example data\<close>

text \<open>The store of the spec's scenario 5, with a second instance.\<close>

definition scenario_store :: "component list" where
  "scenario_store =
     [\<lparr>id' = ''Input-1'', type' = ''Input'',
         props = [(''label'', VStr ''Old''), (''placeholder'', VStr ''X''),
                  (''styles'', VObj [(''marginTop'', VNum (Num 10))])]\<rparr>,
      \<lparr>id' = ''Text-2'', type' = ''Text'', props = [(''text'', VStr ''hello'')]\<rparr>]"

text \<open>\<^verbatim>\<open>DEFAULT_PROPS.Table\<close> (Drag.jsx 266-272).\<close>

record styled_table_props = table_props +
  styles :: fields

definition Table_defaults :: styled_table_props where
  "Table_defaults =
     \<lparr>rows = Num 4, cols = Num 4, hasHeader = True,
      data = generateDefaultTableData 4 4 True,
      styles = [(''marginTop'', VNum (Num 10)), (''marginBottom'', VNum (Num 4)),
                (''marginLeft'', VNum (Num 0)), (''marginRight'', VNum (Num 0))]\<rparr>"

text \<open>The table of the spec's scenario 3: four rows with a header, two columns.\<close>

definition scenario3_table :: table_props where
  "scenario3_table =
     \<lparr>rows = Num 4, cols = Num 2, hasHeader = True,
      data = \<lparr>headers = [''Name'', ''Age''],
               cells = [[''Ann'', ''31''], [''Bob'', ''45''], [''Cy'', ''27'']]\<rparr>\<rparr>"

text \<open>The store of the spec's scenario 2, by id.\<close>

definition abc_store :: "component list" where
  "abc_store =
     [\<lparr>id' = ''A'', type' = ''Text'', props = [(''text'', VStr ''a'')]\<rparr>,
      \<lparr>id' = ''B'', type' = ''Image'', props = [(''alt'', VStr ''b'')]\<rparr>,
      \<lparr>id' = ''C'', type' = ''Text'', props = [(''text'', VStr ''c'')]\<rparr>]"

text \<open>\<^verbatim>\<open>DEFAULT_PROPS.Text\<close>, and the change event of a number input left empty.\<close>

definition text_props :: fields where
  "text_props =
     [(''text'', VStr ''This is an editable text block. Click to select and edit in the properties panel.''),
      (''styles'', VObj
         [(''marginTop'', VNum (Num 8)), (''marginBottom'', VNum (Num 8)),
          (''marginLeft'', VNum (Num 0)), (''marginRight'', VNum (Num 0)),
          (''fontSize'', VNum (Num 18)), (''color'', VStr ''#1e293b'')])]"

definition empty_number_input :: target where
  "empty_number_input =
     \<lparr>target_name = ''marginTop'', target_value = '''', target_type = ''number'',
      target_checked = False\<rparr>"

text \<open>A default \<^verbatim>\<open>Text\<close> instance after its \<^verbatim>\<open>marginTop\<close> input has been emptied.\<close>

definition nan_store :: "component list" where
  "nan_store =
     [\<lparr>id' = ''Text-1'', type' = ''Text'',
       props = handleStyleChange empty_number_input text_props\<rparr>]"

text \<open>An image bound to an object URL, a picked file, and the state that holds them.\<close>

definition bound_image :: component where
  "bound_image =
     \<lparr>id' = ''Image-1'', type' = ''Image'',
      props = [(''src'', VStr ''blob:0''), (''alt'', VStr ''A placeholder image''),
               (''styles'', VObj [(''marginTop'', VNum (Num 10))])]\<rparr>"

definition png_file :: js_file where
  "png_file = \<lparr>file_type = ''image/png''\<rparr>"

definition bound_state :: app where
  "bound_state =
     \<lparr>canvasComponents = [bound_image],
      blobs = \<lparr>next_blob = 1, live = [''blob:0''], revoked = []\<rparr>\<rparr>"

text \<open>
  A store of DragAdvanced.jsx made by its own handler: a \<^verbatim>\<open>Button\<close>, an \<^verbatim>\<open>Input\<close> and an
  \<^verbatim>\<open>Image\<close> dragged from the palette at the clock readings 1, 2 and 3.
\<close>

definition DragAdvanced_store :: "component list" where
  "DragAdvanced_store =
     DragAdvanced_handleDragEnd 3 ''Image'' (Some ''Image'')
       (DragAdvanced_handleDragEnd 2 ''Input'' (Some ''Button'')
          (DragAdvanced_handleDragEnd 1 ''Button'' (Some ''Button'') []))"

section \<open>Verified properties\<close>

subsection \<open>Whole-object replacement of props\<close>

lemma handleUpdateComponent_length:
  "length (handleUpdateComponent i newProps c) = length c"
  by (simp add: handleUpdateComponent_def)

lemma handleUpdateComponent_nth:
  "n < length c \<Longrightarrow> handleUpdateComponent i newProps c ! n =
        (if id' (c ! n) = i then (c ! n)\<lparr>props := newProps\<rparr> else c ! n)"
  by (simp add: handleUpdateComponent_def)

lemma handleUpdateComponent_absent:
  "i \<notin> id' ` set c \<Longrightarrow> handleUpdateComponent i newProps c = c"
  unfolding handleUpdateComponent_def by (rule map_idI) auto

lemma handleUpdateComponent_member:
  assumes "cmp \<in> set (handleUpdateComponent i newProps c)" and "id' cmp = i"
  shows "props cmp = newProps"
proof -
  from assms(1) obtain x where x: "x \<in> set c"
    and c: "cmp = (if id' x = i then x\<lparr>props := newProps\<rparr> else x)"
    unfolding handleUpdateComponent_def by auto
  show ?thesis
  proof (cases "id' x = i")
    case True
    with c show ?thesis by simp
  next
    case False
    with c assms(2) show ?thesis by simp
  qed
qed


text \<open>
  C4. \<^verbatim>\<open>updateProps(id, newProps)\<close> is \<^verbatim>\<open>handleUpdateComponent\<close>: every instance with
  the given id gets exactly \<open>newProps\<close> as its props (a key left out by the caller
  reads as undefined afterwards, no other key remains), every other instance is
  untouched, and when no instance has the id the sequence is returned unchanged.
\<close>

theorem updateProps_replaces_whole_props:
  "length (handleUpdateComponent i newProps c) = length c \<and>
   (\<forall>n < length c. handleUpdateComponent i newProps c ! n =
        (if id' (c ! n) = i then (c ! n)\<lparr>props := newProps\<rparr> else c ! n)) \<and>
   (\<forall>x \<in> set (handleUpdateComponent i newProps c).
        id' x = i \<longrightarrow> props x = newProps \<and> (\<forall>k. get k (props x) = get k newProps)) \<and>
   (i \<notin> id' ` set c \<longrightarrow> handleUpdateComponent i newProps c = c)"
proof (intro conjI ballI allI impI)
  show "length (handleUpdateComponent i newProps c) = length c"
    by (rule handleUpdateComponent_length)
next
  fix n assume "n < length c"
  then show "handleUpdateComponent i newProps c ! n =
        (if id' (c ! n) = i then (c ! n)\<lparr>props := newProps\<rparr> else c ! n)"
    by (rule handleUpdateComponent_nth)
next
  fix x assume "x \<in> set (handleUpdateComponent i newProps c)" and "id' x = i"
  then show "props x = newProps"
    by (rule handleUpdateComponent_member)
next
  fix x k assume "x \<in> set (handleUpdateComponent i newProps c)" and "id' x = i"
  then have "props x = newProps"
    by (rule handleUpdateComponent_member)
  then show "get k (props x) = get k newProps"
    by simp
next
  assume "i \<notin> id' ` set c"
  then show "handleUpdateComponent i newProps c = c"
    by (rule handleUpdateComponent_absent)
qed

theorem updateProps_replaces_whole_props_witness:
  "map props (handleUpdateComponent ''Input-1''
      [(''label'', VStr ''New''), (''placeholder'', VStr ''X'')] scenario_store)
   = [[(''label'', VStr ''New''), (''placeholder'', VStr ''X'')], [(''text'', VStr ''hello'')]]
   \<and> get ''styles'' (props (handleUpdateComponent ''Input-1''
      [(''label'', VStr ''New''), (''placeholder'', VStr ''X'')] scenario_store ! 0)) = None
   \<and> handleUpdateComponent ''Input-9'' [(''label'', VStr ''New'')] scenario_store = scenario_store"
proof -
  let ?np = "[(''label'', VStr ''New''), (''placeholder'', VStr ''X'')]"
  note t = updateProps_replaces_whole_props [of "''Input-1''" ?np scenario_store]
  note u = updateProps_replaces_whole_props [of "''Input-9''" "[(''label'', VStr ''New'')]" scenario_store]
  have len: "length scenario_store = 2"
    by (simp add: scenario_store_def)
  from t have l: "length (handleUpdateComponent ''Input-1'' ?np scenario_store) = length scenario_store"
    and n: "\<And>n. n < length scenario_store \<Longrightarrow> handleUpdateComponent ''Input-1'' ?np scenario_store ! n =
        (if id' (scenario_store ! n) = ''Input-1'' then (scenario_store ! n)\<lparr>props := ?np\<rparr> else scenario_store ! n)"
    by blast+
  have n0: "props (handleUpdateComponent ''Input-1'' ?np scenario_store ! 0) = ?np"
    using n [of 0] by (simp add: scenario_store_def)
  have n1: "props (handleUpdateComponent ''Input-1'' ?np scenario_store ! 1) = [(''text'', VStr ''hello'')]"
    using n [of 1] by (simp add: scenario_store_def)
  have m: "map props (handleUpdateComponent ''Input-1'' ?np scenario_store) = [?np, [(''text'', VStr ''hello'')]]"
    using l len n0 n1 by (simp add: list_eq_iff_nth_eq less_Suc_eq numeral_2_eq_2)
  have absent: "''Input-9'' \<notin> id' ` set scenario_store"
    by (simp add: scenario_store_def)
  with u have noop: "handleUpdateComponent ''Input-9'' [(''label'', VStr ''New'')] scenario_store = scenario_store"
    by blast
  show ?thesis
    using m n0 noop by (simp add: get_def)
qed


subsection \<open>Structural resize\<close>

lemma Array_fill_Inr:
  "Array_fill n v = Inr xs \<Longrightarrow> xs = replicate (nat_of n) v \<and> valid_length n"
  by (auto simp: Array_fill_def split: if_splits)

lemma set_length_Inr:
  "set_length n xs = Inr ys \<Longrightarrow> ys = take (nat_of n) xs \<and> valid_length n"
  by (auto simp: set_length_def split: if_splits)

lemma resize_headers_Inr:
  assumes "resize_headers n hs = Inr hs'"
  shows "hs' = take (nat_of n) hs @ replicate (nat_of n - length hs) ''New Header''"
    and "Num (int (length hs')) = n"
  using assms
  by (cases n; auto simp: resize_headers_def Let_def dest!: Array_fill_Inr set_length_Inr
        split: if_splits sum.splits)+

lemma resize_row_Inr:
  assumes "resize_row n row = Inr row'"
  shows "row' = take (nat_of n) row @ replicate (nat_of n - length row) ''New Cell''"
    and "Num (int (length row')) = n"
  using assms
  by (cases n; auto simp: resize_row_def Let_def dest!: Array_fill_Inr set_length_Inr
        split: if_splits sum.splits)+

lemma push_rows_Inr:
  "push_rows i n cs = Inr cs' \<Longrightarrow> cs' = cs @ replicate i (replicate (nat_of n) ''New Cell'')"
proof (induction i arbitrary: cs)
  case 0
  then show ?case by simp
next
  case (Suc i)
  from Suc.prems obtain row where r: "Array_fill n ''New Cell'' = Inr row"
    and p: "push_rows i n (cs @ [row]) = Inr cs'"
    by (auto split: sum.splits)
  from r have row: "row = replicate (nat_of n) ''New Cell''"
    by (simp add: Array_fill_Inr)
  from Suc.IH [OF p] show ?case
    by (simp add: row)
qed

lemma resize_rows_Inr:
  assumes "resize_rows nr nc cs = Inr cs'"
  shows "cs' = take (nat_of nr) cs @ replicate (nat_of nr - length cs) (replicate (nat_of nc) ''New Cell'')"
    and "Num (int (length cs')) = nr"
  using assms
  by (cases nr; auto simp: resize_rows_def Let_def dest!: push_rows_Inr set_length_Inr
        split: if_splits)+

lemma map_rows_Inr:
  "map_rows f xs = Inr ys \<Longrightarrow> list_all2 (\<lambda>x y. f x = Inr y) xs ys"
  by (induction xs arbitrary: ys) (auto split: sum.splits)


lemma list_all2_fun_eq_map:
  "list_all2 (\<lambda>x y. y = g x) xs ys \<Longrightarrow> ys = map g xs"
  by (induction rule: list_all2_induct) auto

lemma map_rows_resize_row_Inr:
  assumes "map_rows (resize_row n) cs = Inr cs'"
  shows "cs' = map (\<lambda>row. take (nat_of n) row @ replicate (nat_of n - length row) ''New Cell'') cs"
    and "list_all (\<lambda>row. Num (int (length row)) = n) cs'"
proof -
  have a: "list_all2 (\<lambda>x y. resize_row n x = Inr y) cs cs'"
    using assms by (rule map_rows_Inr)
  then have "list_all2 (\<lambda>x y. y = take (nat_of n) x @ replicate (nat_of n - length x) ''New Cell'') cs cs'"
    by (rule list_all2_mono) (simp add: resize_row_Inr(1))
  then show "cs' = map (\<lambda>row. take (nat_of n) row @ replicate (nat_of n - length row) ''New Cell'') cs"
    by (rule list_all2_fun_eq_map)
  from a have "\<forall>y \<in> set cs'. Num (int (length y)) = n"
    using resize_row_Inr(2) by (fastforce simp: list_all2_conv_all_nth in_set_conv_nth)
  then show "list_all (\<lambda>row. Num (int (length row)) = n) cs'"
    by (simp add: list_all_iff)
qed

lemma handleTableStructureChange_Inr:
  assumes "handleTableStructureChange e p = Inr p'"
  obtains hs cs newCells where
    "resize_headers (newCols e p) (headers (data p)) = Inr hs"
    "resize_rows (newCellRows e p) (newCols e p) (cells (data p)) = Inr cs"
    "map_rows (resize_row (newCols e p)) cs = Inr newCells"
    "headers (data p') = hs" "cells (data p') = newCells"
    "rows p' = newRows e p" "cols p' = newCols e p"
    "hasHeader p' = (case e of EditHasHeader b \<Rightarrow> b | _ \<Rightarrow> hasHeader p)"
  using assms
  by (cases e) (auto simp: handleTableStructureChange_def Let_def newRows_def newCols_def
      split: sum.splits)

lemma pad_length: "length (take n xs @ replicate (n - length xs) v) = n"
  by simp

lemma pad_nth:
  assumes "c < length xs" and "c < length (take n xs @ replicate (n - length xs) v)"
  shows "(take n xs @ replicate (n - length xs) v) ! c = xs ! c"
proof -
  from assms(2) have "c < n" by (simp only: pad_length)
  with assms(1) have "c < length (take n xs)" by simp
  then have "(take n xs @ replicate (n - length xs) v) ! c = take n xs ! c"
    by (simp only: nth_append if_True)
  with \<open>c < n\<close> show ?thesis by simp
qed

text \<open>
  What a completed resize returns: the headers and cells after it, and the headers and
  cells that keep their text.
\<close>

lemma resize_result_when_complete:
  fixes e :: structure_edit and props props' :: "'a table_props_scheme"
  defines "nc \<equiv> nat_of (newCols e props)" and "nr \<equiv> nat_of (newCellRows e props)"
  assumes ok: "handleTableStructureChange e props = Inr props'"
  shows "headers (data props') =
           take nc (headers (data props)) @
           replicate (nc - length (headers (data props))) ''New Header'' \<and>
         cells (data props') =
           map (\<lambda>row. take nc row @ replicate (nc - length row) ''New Cell'')
             (take nr (cells (data props)) @
              replicate (nr - length (cells (data props))) (replicate nc ''New Cell'')) \<and>
         (\<forall>c. c < length (headers (data props)) \<and> c < length (headers (data props')) \<longrightarrow>
              headers (data props') ! c = headers (data props) ! c) \<and>
         (\<forall>r c. r < length (cells (data props)) \<and> r < length (cells (data props')) \<and>
                c < length (cells (data props) ! r) \<and> c < length (cells (data props') ! r) \<longrightarrow>
              cells (data props') ! r ! c = cells (data props) ! r ! c)"
proof -
  let ?hs = "headers (data props)" and ?cs = "cells (data props)"
  let ?g = "\<lambda>row. take nc row @ replicate (nc - length row) ''New Cell''"
  let ?cs1 = "take nr ?cs @ replicate (nr - length ?cs) (replicate nc ''New Cell'')"
  from ok obtain hs cs newCells where
    h: "resize_headers (newCols e props) ?hs = Inr hs"
    and r: "resize_rows (newCellRows e props) (newCols e props) ?cs = Inr cs"
    and m: "map_rows (resize_row (newCols e props)) cs = Inr newCells"
    and hs': "headers (data props') = hs" and cs': "cells (data props') = newCells"
    by (rule handleTableStructureChange_Inr)
  have H: "headers (data props') = take nc ?hs @ replicate (nc - length ?hs) ''New Header''"
    using resize_headers_Inr(1) [OF h] hs' by (simp add: nc_def)
  have cs1: "cs = ?cs1"
    using resize_rows_Inr(1) [OF r] by (simp add: nc_def nr_def)
  have C: "cells (data props') = map ?g ?cs1"
    using map_rows_resize_row_Inr(1) [OF m] cs' cs1 by (simp add: nc_def)
  have Hp: "headers (data props') ! c = ?hs ! c"
    if "c < length ?hs" "c < length (headers (data props'))" for c
    using that unfolding H by (rule pad_nth)
  have Cp: "cells (data props') ! r ! c = ?cs ! r ! c"
    if a: "r < length ?cs" "r < length (cells (data props'))"
      "c < length (?cs ! r)" "c < length (cells (data props') ! r)" for r c
  proof -
    from a(2) have rl: "r < length ?cs1" by (simp only: C length_map)
    with a(1) have row: "?cs1 ! r = ?cs ! r" by (rule pad_nth)
    note rl
    then have "cells (data props') ! r = ?g (?cs1 ! r)"
      unfolding C by (rule nth_map)
    then have eq: "cells (data props') ! r = ?g (?cs ! r)"
      by (simp only: row)
    from a(3,4) show ?thesis
      unfolding eq by (rule pad_nth)
  qed
  from H C Hp Cp show ?thesis by blast
qed


lemma scenario3_rows6:
  "handleTableStructureChange (EditRows ''6'') scenario3_table =
     Inr \<lparr>rows = Num 6, cols = Num 2, hasHeader = True,
          data = \<lparr>headers = [''Name'', ''Age''],
                   cells = [[''Ann'', ''31''], [''Bob'', ''45''], [''Cy'', ''27''],
                            [''New Cell'', ''New Cell''], [''New Cell'', ''New Cell'']]\<rparr>\<rparr>"
  by code_simp

lemma resize_result_shape:
  assumes "handleTableStructureChange e p = Inr p'"
  shows "Num (int (length (headers (data p')))) = cols p'"
    and "Num (int (length (cells (data p')))) = newCellRows e p"
    and "list_all (\<lambda>row. Num (int (length row)) = cols p') (cells (data p'))"
proof -
  from assms obtain hs cs newCells where
    h: "resize_headers (newCols e p) (headers (data p)) = Inr hs"
    and r: "resize_rows (newCellRows e p) (newCols e p) (cells (data p)) = Inr cs"
    and m: "map_rows (resize_row (newCols e p)) cs = Inr newCells"
    and hs': "headers (data p') = hs" and cs': "cells (data p') = newCells"
    and c': "cols p' = newCols e p"
    by (rule handleTableStructureChange_Inr)
  show "Num (int (length (headers (data p')))) = cols p'"
    using resize_headers_Inr(2) [OF h] hs' c' by simp
  have "length newCells = length cs"
    using map_rows_Inr [OF m] by (simp add: list_all2_lengthD)
  then show "Num (int (length (cells (data p')))) = newCellRows e p"
    using resize_rows_Inr(2) [OF r] cs' by simp
  show "list_all (\<lambda>row. Num (int (length row)) = cols p') (cells (data p'))"
    using map_rows_resize_row_Inr(2) [OF m] cs' c' by simp
qed

lemma map_rows_all_Inr:
  "(\<forall>x \<in> set xs. f x = Inr (g x)) \<Longrightarrow> map_rows f xs = Inr (map g xs)"
  by (induction xs) auto

lemma Array_fill_valid:
  "valid_length n \<Longrightarrow> Array_fill n v = Inr (replicate (nat_of n) v)"
  by (simp add: Array_fill_def)

lemma set_length_valid:
  "valid_length n \<Longrightarrow> set_length n xs = Inr (take (nat_of n) xs)"
  by (simp add: set_length_def)

lemma resize_headers_valid:
  "valid_length n \<Longrightarrow>
     resize_headers n hs = Inr (take (nat_of n) hs @ replicate (nat_of n - length hs) ''New Header'')"
  by (cases n) (auto simp: resize_headers_def Array_fill_def set_length_def nat_diff_distrib')

lemma resize_row_valid:
  "valid_length n \<Longrightarrow>
     resize_row n row = Inr (take (nat_of n) row @ replicate (nat_of n - length row) ''New Cell'')"
  by (cases n) (auto simp: resize_row_def Array_fill_def set_length_def nat_diff_distrib')

lemma push_rows_valid:
  "valid_length n \<Longrightarrow>
     push_rows i n cs = Inr (cs @ replicate i (replicate (nat_of n) ''New Cell''))"
proof (induction i arbitrary: cs)
  case 0
  then show ?case by simp
next
  case (Suc i)
  from Suc.prems have "push_rows (Suc i) n cs = push_rows i n (cs @ [replicate (nat_of n) ''New Cell''])"
    by (simp add: Array_fill_valid)
  also have "\<dots> = Inr ((cs @ [replicate (nat_of n) ''New Cell'']) @
                      replicate i (replicate (nat_of n) ''New Cell''))"
    using Suc.prems by (rule Suc.IH)
  finally show ?case by simp
qed

lemma resize_rows_valid:
  assumes "valid_length nr" and "valid_length nc"
  shows "resize_rows nr nc cs =
           Inr (take (nat_of nr) cs @
                replicate (nat_of nr - length cs) (replicate (nat_of nc) ''New Cell''))"
proof (cases nr)
  case (Num r)
  show ?thesis
  proof (cases "int (length cs) < r")
    case True
    with assms Num show ?thesis
      by (simp add: resize_rows_def push_rows_valid nat_diff_distrib')
  next
    case False
    with assms Num show ?thesis
      by (simp add: resize_rows_def set_length_valid)
  qed
next
  case NaN
  with assms show ?thesis by simp
qed

text \<open>
  C1. For every table and every edit of \<^verbatim>\<open>rows\<close>, \<^verbatim>\<open>cols\<close> or \<^verbatim>\<open>hasHeader\<close> whose new
  column count and new number of data rows are valid array lengths (integers from
  \<open>0\<close> to \<open>2^32 - 1\<close>), \<^verbatim>\<open>handleTableStructureChange\<close> completes, and what it hands to
  \<^verbatim>\<open>onUpdate\<close> is the edited props with these data: the old headers truncated to the new
  column count, or followed by \<open>''New Header''\<close> labels up to it; the old rows
  truncated to the new row count, or followed by rows of \<open>''New Cell''\<close> up to it; and
  each row, on its own, truncated to the new column count or padded with
  \<open>''New Cell''\<close> up to it. The handler completes only when both dimensions are
  integers that are not negative, and then these are the data; so every header and
  every cell whose coordinates exist before and after the resize keeps its text.
  (When the handler throws, the store is not updated at all.)
\<close>

theorem resize_preserves_existing_cells:
  fixes e :: structure_edit and props :: "'a table_props_scheme"
  defines "nc \<equiv> nat_of (newCols e props)" and "nr \<equiv> nat_of (newCellRows e props)"
  defines "hs' \<equiv> take nc (headers (data props)) @
                   replicate (nc - length (headers (data props))) ''New Header''"
    and "cs' \<equiv> map (\<lambda>row. take nc row @ replicate (nc - length row) ''New Cell'')
                   (take nr (cells (data props)) @
                    replicate (nr - length (cells (data props))) (replicate nc ''New Cell''))"
  shows "(valid_length (newCols e props) \<and> valid_length (newCellRows e props) \<longrightarrow>
            handleTableStructureChange e props =
              Inr ((case e of
                      EditRows v \<Rightarrow> props\<lparr>rows := parseInt v\<rparr>
                    | EditCols v \<Rightarrow> props\<lparr>cols := parseInt v\<rparr>
                    | EditHasHeader b \<Rightarrow> props\<lparr>hasHeader := b\<rparr>)
                   \<lparr>data := \<lparr>headers = hs', cells = cs'\<rparr>\<rparr>)) \<and>
         (\<forall>props'. handleTableStructureChange e props = Inr props' \<longrightarrow>
            (\<exists>k r. newCols e props = Num k \<and> 0 \<le> k \<and> newCellRows e props = Num r \<and> 0 \<le> r) \<and>
            headers (data props') = hs' \<and> cells (data props') = cs' \<and>
            length hs' = nc \<and> length cs' = nr \<and> list_all (\<lambda>row. length row = nc) cs' \<and>
            (\<forall>c. c < length (headers (data props)) \<and> c < length (headers (data props')) \<longrightarrow>
                 headers (data props') ! c = headers (data props) ! c) \<and>
            (\<forall>r c. r < length (cells (data props)) \<and> r < length (cells (data props')) \<and>
                   c < length (cells (data props) ! r) \<and> c < length (cells (data props') ! r) \<longrightarrow>
                 cells (data props') ! r ! c = cells (data props) ! r ! c))"
proof (intro conjI impI allI)
  assume v: "valid_length (newCols e props) \<and> valid_length (newCellRows e props)"
  let ?cs1 = "take nr (cells (data props)) @
              replicate (nr - length (cells (data props))) (replicate nc ''New Cell'')"
  have h: "resize_headers (newCols e props) (headers (data props)) = Inr hs'"
    using v by (simp add: resize_headers_valid hs'_def nc_def)
  have r: "resize_rows (newCellRows e props) (newCols e props) (cells (data props)) = Inr ?cs1"
    using v by (simp add: resize_rows_valid nc_def nr_def)
  have "\<forall>row \<in> set ?cs1. resize_row (newCols e props) row =
          Inr (take nc row @ replicate (nc - length row) ''New Cell'')"
    using v by (simp add: resize_row_valid nc_def)
  then have m: "map_rows (resize_row (newCols e props)) ?cs1 = Inr cs'"
    unfolding cs'_def by (rule map_rows_all_Inr)
  show "handleTableStructureChange e props =
              Inr ((case e of
                      EditRows v \<Rightarrow> props\<lparr>rows := parseInt v\<rparr>
                    | EditCols v \<Rightarrow> props\<lparr>cols := parseInt v\<rparr>
                    | EditHasHeader b \<Rightarrow> props\<lparr>hasHeader := b\<rparr>)
                   \<lparr>data := \<lparr>headers = hs', cells = cs'\<rparr>\<rparr>)"
    by (simp add: handleTableStructureChange_def h r m)
next
  fix props' assume ok: "handleTableStructureChange e props = Inr props'"
  note t = resize_result_when_complete [OF ok]
  note s = resize_result_shape [OF ok]
  from ok have c: "cols props' = newCols e props"
    by (auto elim: handleTableStructureChange_Inr)
  show H: "headers (data props') = hs'" using t by (simp add: hs'_def nc_def)
  show C: "cells (data props') = cs'" using t by (simp add: cs'_def nc_def nr_def)
  from s(1) c have k: "newCols e props = Num (int (length (headers (data props'))))" by simp
  from s(2) have r: "newCellRows e props = Num (int (length (cells (data props'))))" by simp
  from k r show "\<exists>k r. newCols e props = Num k \<and> 0 \<le> k \<and> newCellRows e props = Num r \<and> 0 \<le> r"
    by auto
  from k H show lh: "length hs' = nc" by (simp add: nc_def)
  from r C show "length cs' = nr" by (simp add: nr_def)
  from s(3) c k C show "list_all (\<lambda>row. length row = nc) cs'"
    by (simp add: nc_def list_all_iff)
next
  fix props' c
  assume ok: "handleTableStructureChange e props = Inr props'"
    and "c < length (headers (data props)) \<and> c < length (headers (data props'))"
  with resize_result_when_complete [OF ok]
  show "headers (data props') ! c = headers (data props) ! c" by blast
next
  fix props' r c
  assume ok: "handleTableStructureChange e props = Inr props'"
    and "r < length (cells (data props)) \<and> r < length (cells (data props')) \<and>
         c < length (cells (data props) ! r) \<and> c < length (cells (data props') ! r)"
  with resize_result_when_complete [OF ok]
  show "cells (data props') ! r ! c = cells (data props) ! r ! c" by blast
qed

lemma parseInt_small:
  "parseInt ''1'' = Num 1" "parseInt ''2'' = Num 2" "parseInt ''3'' = Num 3" "parseInt ''6'' = Num 6"
  by code_simp+

theorem resize_preserves_existing_cells_witness:
  "handleTableStructureChange (EditCols ''3'') scenario3_table =
     Inr \<lparr>rows = Num 4, cols = Num 3, hasHeader = True,
          data = \<lparr>headers = [''Name'', ''Age'', ''New Header''],
                   cells = [[''Ann'', ''31'', ''New Cell''], [''Bob'', ''45'', ''New Cell''],
                            [''Cy'', ''27'', ''New Cell'']]\<rparr>\<rparr> \<and>
   handleTableStructureChange (EditCols ''1'') scenario3_table =
     Inr \<lparr>rows = Num 4, cols = Num 1, hasHeader = True,
          data = \<lparr>headers = [''Name''], cells = [[''Ann''], [''Bob''], [''Cy'']]\<rparr>\<rparr> \<and>
   handleTableStructureChange (EditRows ''6'') scenario3_table =
     Inr \<lparr>rows = Num 6, cols = Num 2, hasHeader = True,
          data = \<lparr>headers = [''Name'', ''Age''],
                   cells = [[''Ann'', ''31''], [''Bob'', ''45''], [''Cy'', ''27''],
                            [''New Cell'', ''New Cell''], [''New Cell'', ''New Cell'']]\<rparr>\<rparr> \<and>
   handleTableStructureChange (EditRows ''2'') scenario3_table =
     Inr \<lparr>rows = Num 2, cols = Num 2, hasHeader = True,
          data = \<lparr>headers = [''Name'', ''Age''], cells = [[''Ann'', ''31'']]\<rparr>\<rparr> \<and>
   handleTableStructureChange (EditHasHeader False) scenario3_table =
     Inr \<lparr>rows = Num 4, cols = Num 2, hasHeader = False,
          data = \<lparr>headers = [''Name'', ''Age''],
                   cells = [[''Ann'', ''31''], [''Bob'', ''45''], [''Cy'', ''27'']]\<rparr>\<rparr>"
proof -
  have v: "valid_length (newCols (EditCols ''3'') scenario3_table) \<and>
           valid_length (newCellRows (EditCols ''3'') scenario3_table)"
    "valid_length (newCols (EditCols ''1'') scenario3_table) \<and>
           valid_length (newCellRows (EditCols ''1'') scenario3_table)"
    "valid_length (newCols (EditRows ''6'') scenario3_table) \<and>
           valid_length (newCellRows (EditRows ''6'') scenario3_table)"
    "valid_length (newCols (EditRows ''2'') scenario3_table) \<and>
           valid_length (newCellRows (EditRows ''2'') scenario3_table)"
    "valid_length (newCols (EditHasHeader False) scenario3_table) \<and>
           valid_length (newCellRows (EditHasHeader False) scenario3_table)"
    by (simp_all add: newCols_def newCellRows_def newRows_def parseInt_small scenario3_table_def)
  note a = resize_preserves_existing_cells [of "EditCols ''3''" scenario3_table, THEN conjunct1, THEN mp, OF v(1)]
  note b = resize_preserves_existing_cells [of "EditCols ''1''" scenario3_table, THEN conjunct1, THEN mp, OF v(2)]
  note c = resize_preserves_existing_cells [of "EditRows ''6''" scenario3_table, THEN conjunct1, THEN mp, OF v(3)]
  note d = resize_preserves_existing_cells [of "EditRows ''2''" scenario3_table, THEN conjunct1, THEN mp, OF v(4)]
  note e = resize_preserves_existing_cells [of "EditHasHeader False" scenario3_table, THEN conjunct1, THEN mp, OF v(5)]
  have 1: "handleTableStructureChange (EditCols ''3'') scenario3_table =
     Inr \<lparr>rows = Num 4, cols = Num 3, hasHeader = True,
          data = \<lparr>headers = [''Name'', ''Age'', ''New Header''],
                   cells = [[''Ann'', ''31'', ''New Cell''], [''Bob'', ''45'', ''New Cell''],
                            [''Cy'', ''27'', ''New Cell'']]\<rparr>\<rparr>"
    using a by (simp add: newCols_def newCellRows_def newRows_def parseInt_small scenario3_table_def
        numeral_3_eq_3)
  have 2: "handleTableStructureChange (EditCols ''1'') scenario3_table =
     Inr \<lparr>rows = Num 4, cols = Num 1, hasHeader = True,
          data = \<lparr>headers = [''Name''], cells = [[''Ann''], [''Bob''], [''Cy'']]\<rparr>\<rparr>"
    using b by (simp add: newCols_def newCellRows_def newRows_def parseInt_small scenario3_table_def
        numeral_3_eq_3)
  have 3: "handleTableStructureChange (EditRows ''6'') scenario3_table =
     Inr \<lparr>rows = Num 6, cols = Num 2, hasHeader = True,
          data = \<lparr>headers = [''Name'', ''Age''],
                   cells = [[''Ann'', ''31''], [''Bob'', ''45''], [''Cy'', ''27''],
                            [''New Cell'', ''New Cell''], [''New Cell'', ''New Cell'']]\<rparr>\<rparr>"
    using c by (simp add: newCols_def newCellRows_def newRows_def parseInt_small scenario3_table_def
        numeral_2_eq_2 eval_nat_numeral)
  have 4: "handleTableStructureChange (EditRows ''2'') scenario3_table =
     Inr \<lparr>rows = Num 2, cols = Num 2, hasHeader = True,
          data = \<lparr>headers = [''Name'', ''Age''], cells = [[''Ann'', ''31'']]\<rparr>\<rparr>"
    using d by (simp add: newCols_def newCellRows_def newRows_def parseInt_small scenario3_table_def
        numeral_2_eq_2)
  have 5: "handleTableStructureChange (EditHasHeader False) scenario3_table =
     Inr \<lparr>rows = Num 4, cols = Num 2, hasHeader = False,
          data = \<lparr>headers = [''Name'', ''Age''],
                   cells = [[''Ann'', ''31''], [''Bob'', ''45''], [''Cy'', ''27'']]\<rparr>\<rparr>"
    using e by (simp add: newCols_def newCellRows_def newRows_def scenario3_table_def
        numeral_2_eq_2 numeral_3_eq_3)
  from 1 2 3 4 5 show ?thesis by blast
qed

lemma resize_rows_or_cols_shape_ok:
  assumes "handleTableStructureChange e p = Inr p'" and "e = EditRows v \<or> e = EditCols v"
  shows "shape_ok p'"
proof -
  from assms(1) have "rows p' = newRows e p"
    and "hasHeader p' = (case e of EditHasHeader b \<Rightarrow> b | _ \<Rightarrow> hasHeader p)"
    by (auto elim: handleTableStructureChange_Inr)
  with assms(2) have "newCellRows e p = (if hasHeader p' then num_sub (rows p') (Num 1) else rows p')"
    by (auto simp: newCellRows_def)
  then show ?thesis
    using resize_result_shape [OF assms(1)] by (simp add: shape_ok_def)
qed

lemma header_toggle_breaks_shape:
  assumes "handleTableStructureChange (EditHasHeader b) p = Inr p'" and "b \<noteq> hasHeader p"
  shows "\<not> shape_ok p'"
proof
  assume s: "shape_ok p'"
  from assms(1) have r: "rows p' = rows p" and hh: "hasHeader p' = b"
    by (auto elim: handleTableStructureChange_Inr simp: newRows_def)
  have len: "Num (int (length (cells (data p')))) = newCellRows (EditHasHeader b) p"
    using resize_result_shape(2) [OF assms(1)] .
  from s have "Num (int (length (cells (data p')))) = (if b then num_sub (rows p) (Num 1) else rows p)"
    by (simp add: shape_ok_def r hh)
  with len assms(2) show False
    by (cases "rows p") (auto simp: newCellRows_def newRows_def split: if_splits)
qed

text \<open>The default table is the entry of \<^verbatim>\<open>DEFAULT_PROPS\<close> for \<^verbatim>\<open>Table\<close>.\<close>

lemma Table_defaults_registered:
  "map_of DEFAULT_PROPS ''Table'' =
     Some (VObj [(''rows'', VNum (rows Table_defaults)),
                 (''cols'', VNum (cols Table_defaults)),
                 (''hasHeader'', VBool (hasHeader Table_defaults)),
                 (''data'', table_data_val (data Table_defaults)),
                 (''styles'', VObj (styles Table_defaults))])"
  by (simp add: DEFAULT_PROPS_def Table_defaults_def)

text \<open>
  C2. The shape invariant after a structural resize, read with the values of
  \<^verbatim>\<open>rows\<close> and \<^verbatim>\<open>hasHeader\<close> after the update. It holds after every completed edit
  of \<^verbatim>\<open>rows\<close> or \<^verbatim>\<open>cols\<close> (\<open>resize_rows_or_cols_shape_ok\<close>) and fails after every
  completed toggle of \<^verbatim>\<open>hasHeader\<close> (\<open>header_toggle_breaks_shape\<close>), because the
  handler counts the data rows with the flag as it was before the edit. On the
  default table, clearing the check box leaves three data rows where
  \<^verbatim>\<open>rows = 4\<close> without a header asks for four.
\<close>

theorem header_toggle_keeps_row_count:
  "shape_ok Table_defaults \<and>
   (case handleTableStructureChange (EditHasHeader False) Table_defaults of
      Inl err \<Rightarrow> False
    | Inr p' \<Rightarrow> rows p' = Num 4 \<and> \<not> hasHeader p' \<and> length (cells (data p')) = 3 \<and>
               \<not> shape_ok p')"
  by code_simp

lemma resize_headers_Inl: "resize_headers n hs = Inl err \<Longrightarrow> err = RangeError"
  by (auto simp: resize_headers_def Let_def Array_fill_def set_length_def
      split: if_splits sum.splits)

lemma resize_headers_negative:
  "n < 0 \<Longrightarrow> resize_headers (Num n) hs = set_length (Num n) hs"
  by (simp add: resize_headers_def)

lemma set_length_invalid: "\<not> valid_length n \<Longrightarrow> set_length n xs = Inl RangeError"
  by (simp add: set_length_def)

lemma resize_headers_NaN: "resize_headers NaN hs = Inl RangeError"
  by (simp add: resize_headers_def set_length_def)

lemma resize_rows_NaN: "resize_rows NaN n cs = Inl RangeError"
  by (simp add: resize_rows_def set_length_def)

text \<open>
  C10. The resize path has no validation and no clamp. A \<^verbatim>\<open>cols\<close> edit whose text
  parses to a negative integer makes that integer the new column count, which the
  handler assigns as the length of the headers array: an invalid array length, so the
  handler ends in a \<^verbatim>\<open>RangeError\<close>. An unparsable text makes the new column count, or
  the new number of data rows, \<^verbatim>\<open>NaN\<close>, which reaches the same length assignments and
  ends in the same error; no dimension is replaced by zero on the way.
\<close>

theorem resize_does_not_clamp:
  "(parseInt v = Num n \<and> n < 0 \<longrightarrow>
      newCols (EditCols v) p = Num n \<and>
      resize_headers (Num n) (headers (data p)) = set_length (Num n) (headers (data p)) \<and>
      set_length (Num n) (headers (data p)) = Inl RangeError \<and>
      handleTableStructureChange (EditCols v) p = Inl RangeError) \<and>
   (parseInt v = NaN \<longrightarrow>
      newCols (EditCols v) p = NaN \<and>
      newCellRows (EditRows v) p = NaN \<and>
      handleTableStructureChange (EditCols v) p = Inl RangeError \<and>
      handleTableStructureChange (EditRows v) p = Inl RangeError)"
proof (intro conjI impI)
  assume a: "parseInt v = Num n \<and> n < 0"
  then show c: "newCols (EditCols v) p = Num n"
    by (simp add: newCols_def)
  from a show h: "resize_headers (Num n) (headers (data p)) = set_length (Num n) (headers (data p))"
    by (simp add: resize_headers_negative)
  from a show s: "set_length (Num n) (headers (data p)) = Inl RangeError"
    by (simp add: set_length_invalid)
  from c h s show "handleTableStructureChange (EditCols v) p = Inl RangeError"
    by (simp add: handleTableStructureChange_def)
next
  assume a: "parseInt v = NaN"
  then show c: "newCols (EditCols v) p = NaN"
    by (simp add: newCols_def)
  from a show r: "newCellRows (EditRows v) p = NaN"
    by (simp add: newCellRows_def newRows_def)
  from c show "handleTableStructureChange (EditCols v) p = Inl RangeError"
    by (simp add: handleTableStructureChange_def resize_headers_NaN)
  show "handleTableStructureChange (EditRows v) p = Inl RangeError"
  proof (cases "resize_headers (newCols (EditRows v) p) (headers (data p))")
    case (Inl err)
    then have "err = RangeError" by (rule resize_headers_Inl)
    with Inl show ?thesis
      by (simp add: handleTableStructureChange_def)
  next
    case (Inr hs)
    then show ?thesis
      by (simp add: handleTableStructureChange_def r resize_rows_NaN)
  qed
qed

lemma parseInt_minus3: "parseInt ''-3'' = Num (- 3)"
  by code_simp

lemma parseInt_empty: "parseInt '''' = NaN"
  by code_simp

theorem resize_does_not_clamp_witness:
  "parseInt ''-3'' = Num (- 3) \<and> parseInt '''' = NaN \<and>
   handleTableStructureChange (EditCols ''-3'') Table_defaults = Inl RangeError \<and>
   handleTableStructureChange (EditCols '''') Table_defaults = Inl RangeError \<and>
   handleTableStructureChange (EditRows '''') Table_defaults = Inl RangeError"
  using resize_does_not_clamp [of "''-3''" "- 3" Table_defaults]
    resize_does_not_clamp [of "''''" 0 Table_defaults]
    parseInt_minus3 parseInt_empty
  by simp

subsection \<open>Reordering and cancelled drags\<close>

lemma findIndex_range: "- 1 \<le> findIndex P xs \<and> findIndex P xs < int (length xs)"
  by (induction xs) (auto simp: Let_def)

lemma findIndex_none: "(findIndex P xs = - 1) = (\<forall>x \<in> set xs. \<not> P x)"
proof (induction xs)
  case Nil
  then show ?case by simp
next
  case (Cons x xs)
  with findIndex_range [of P xs] show ?case
    by (auto simp: Let_def)
qed

lemma findIndex_found:
  assumes "\<exists>x \<in> set xs. P x"
  shows "0 \<le> findIndex P xs" and "nat (findIndex P xs) < length xs"
    and "P (xs ! nat (findIndex P xs))"
proof -
  from assms have ne: "findIndex P xs \<noteq> - 1"
    by (simp add: findIndex_none)
  with findIndex_range [of P xs] show "0 \<le> findIndex P xs" by arith
  with findIndex_range [of P xs] show "nat (findIndex P xs) < length xs" by arith
  from assms show "P (xs ! nat (findIndex P xs))"
  proof (induction xs)
    case Nil
    then show ?case by simp
  next
    case (Cons x xs)
    show ?case
    proof (cases "P x")
      case True
      then show ?thesis by simp
    next
      case False
      with Cons.prems have ex: "\<exists>x \<in> set xs. P x" by simp
      then have "findIndex P xs \<noteq> - 1" by (simp add: findIndex_none)
      with findIndex_range [of P xs] have ge: "0 \<le> findIndex P xs" by arith
      from False ge Cons.IH [OF ex] show ?thesis
        by (simp add: Let_def nat_add_distrib)
    qed
  qed
qed

lemma splice_insert:
  "k \<le> length xs \<Longrightarrow> snd (splice' (int k) 0 items xs) = take k xs @ items @ drop k xs"
  by (simp add: splice'_def Let_def min_def)

lemma splice_remove_one:
  "i < length xs \<Longrightarrow> splice' (int i) (Suc 0) [] xs = ([xs ! i], take i xs @ drop (Suc i) xs)"
  by (simp add: splice'_def Let_def min_def take_Suc_conv_app_nth Cons_nth_drop_Suc [symmetric])

lemma arrayMove_valid:
  assumes "i < length xs" and "j < length xs"
  shows "arrayMove xs (int i) (int j) =
           take j (take i xs @ drop (Suc i) xs) @ xs ! i # drop j (take i xs @ drop (Suc i) xs)"
proof -
  let ?rest = "take i xs @ drop (Suc i) xs"
  from assms have "j \<le> length ?rest" by simp
  then have ins: "snd (splice' (int j) 0 [xs ! i] ?rest) = take j ?rest @ [xs ! i] @ drop j ?rest"
    by (rule splice_insert)
  have "arrayMove xs (int i) (int j) = snd (splice' (int j) 0 [xs ! i] ?rest)"
    using assms(1) by (simp add: arrayMove_def splice_remove_one del: take_append drop_append)
  also note ins
  finally show ?thesis by simp
qed

lemma mset_remove_insert:
  assumes "i < length xs"
  shows "mset (take j (take i xs @ drop (Suc i) xs) @ xs ! i # drop j (take i xs @ drop (Suc i) xs))
         = mset xs"
proof -
  let ?rest = "take i xs @ drop (Suc i) xs"
  have "mset (take j ?rest @ xs ! i # drop j ?rest) = mset (take j ?rest @ drop j ?rest) + {#xs ! i#}"
    by simp
  also have "\<dots> = mset ?rest + {#xs ! i#}"
    by (simp only: append_take_drop_id)
  also have "\<dots> = mset (take i xs @ xs ! i # drop (Suc i) xs)"
    by simp
  also have "\<dots> = mset xs"
    using assms by (simp only: id_take_nth_drop [symmetric])
  finally show ?thesis .
qed

lemma list_ex_id: "list_ex (\<lambda>c. id' c = a) cs = (a \<in> id' ` set cs)"
  by (auto simp: list_ex_iff)

text \<open>
  C3. A drag of a canvas instance (an id that is no palette entry) dropped on a
  different canvas instance: with \<open>i\<close> the index of the dragged instance and \<open>j\<close> the
  index of the target, both read in the sequence before the move, the new sequence is
  the old one with the element at \<open>i\<close> removed and then inserted at position \<open>j\<close> of
  what remains; the element ends at index \<open>j\<close>, and the multiset of instances, hence
  of ids, is unchanged. From \<open>[A, B, C]\<close>, dragging \<open>A\<close> onto \<open>C\<close> gives \<open>[B, C, A]\<close>.
\<close>

theorem reorder_moves_one_element:
  fixes cs :: "component list" and active overId :: string
  defines "i \<equiv> nat (findIndex (\<lambda>c. id' c = active) cs)"
    and "j \<equiv> nat (findIndex (\<lambda>c. id' c = overId) cs)"
  assumes "active \<notin> set availableComponents"
    and "active \<in> id' ` set cs" and "overId \<in> id' ` set cs" and "active \<noteq> overId"
  shows "i < length cs \<and> id' (cs ! i) = active \<and> j < length cs \<and> id' (cs ! j) = overId \<and>
         handleDragEnd now active (Some overId) cs =
           Inr (take j (take i cs @ drop (Suc i) cs) @ cs ! i # drop j (take i cs @ drop (Suc i) cs)) \<and>
         (\<forall>ys. handleDragEnd now active (Some overId) cs = Inr ys \<longrightarrow>
               mset (map id' ys) = mset (map id' cs) \<and> mset ys = mset cs \<and> ys ! j = cs ! i)"
proof -
  let ?rest = "take i cs @ drop (Suc i) cs"
  let ?ys = "take j ?rest @ cs ! i # drop j ?rest"
  from assms(4) have ea: "\<exists>x \<in> set cs. id' x = active" by auto
  from assms(5) have eo: "\<exists>x \<in> set cs. id' x = overId" by auto
  note fa = findIndex_found [of cs "\<lambda>c. id' c = active", OF ea]
  note fo = findIndex_found [of cs "\<lambda>c. id' c = overId", OF eo]
  have i: "i < length cs" and ia: "id' (cs ! i) = active"
    using fa by (simp_all add: i_def)
  have j: "j < length cs" and jo: "id' (cs ! j) = overId"
    using fo by (simp_all add: j_def)
  have ii: "findIndex (\<lambda>c. id' c = active) cs = int i"
    using fa(1) by (simp add: i_def)
  have jj: "findIndex (\<lambda>c. id' c = overId) cs = int j"
    using fo(1) by (simp add: j_def)
  have "handleDragEnd now active (Some overId) cs = Inr (arrayMove cs (int i) (int j))"
    using assms(3-6) by (simp add: handleDragEnd_def list_ex_id ii jj del: image_eqI)
  then have h: "handleDragEnd now active (Some overId) cs = Inr ?ys"
    by (simp only: arrayMove_valid [OF i j])
  have m: "mset ?ys = mset cs"
    using i by (rule mset_remove_insert)
  then have "mset (map id' ?ys) = mset (map id' cs)"
    by (simp only: mset_map)
  moreover have "?ys ! j = cs ! i"
  proof -
    from j i have "j \<le> length ?rest" by simp
    then have "length (take j ?rest) = j" by simp
    then show ?thesis by (metis nth_append_length)
  qed
  ultimately show ?thesis
    using i ia j jo h m by simp
qed

theorem reorder_moves_one_element_witness:
  "''A'' \<notin> set availableComponents \<and> ''A'' \<in> id' ` set abc_store \<and>
   ''C'' \<in> id' ` set abc_store \<and>
   handleDragEnd 0 ''A'' (Some ''C'') abc_store =
     Inr [\<lparr>id' = ''B'', type' = ''Image'', props = [(''alt'', VStr ''b'')]\<rparr>,
          \<lparr>id' = ''C'', type' = ''Text'', props = [(''text'', VStr ''c'')]\<rparr>,
          \<lparr>id' = ''A'', type' = ''Text'', props = [(''text'', VStr ''a'')]\<rparr>]"
proof -
  have p: "''A'' \<notin> set availableComponents" "''A'' \<in> id' ` set abc_store"
    "''C'' \<in> id' ` set abc_store" "''A'' \<noteq> ''C''"
    by (simp_all add: availableComponents_def abc_store_def)
  have i: "nat (findIndex (\<lambda>c. id' c = ''A'') abc_store) = 0"
    and j: "nat (findIndex (\<lambda>c. id' c = ''C'') abc_store) = 2"
    by (simp_all add: abc_store_def)
  note t = reorder_moves_one_element [OF p, of 0, unfolded i j]
  then have "handleDragEnd 0 ''A'' (Some ''C'') abc_store =
     Inr (take 2 (take 0 abc_store @ drop (Suc 0) abc_store) @
          abc_store ! 0 # drop 2 (take 0 abc_store @ drop (Suc 0) abc_store))"
    by blast
  then show ?thesis
    using p by (simp add: abc_store_def)
qed

lemma handleDragEnd_no_target: "handleDragEnd now active None cs = Inr cs"
  by (simp add: handleDragEnd_def)

text \<open>
  In Drag.jsx a drag that ends with no drop target leaves the sequence unchanged,
  whatever was dragged; a drag of an element that is no palette entry leaves it
  unchanged when the element is dropped on itself, and when it is dropped on a target
  that is no canvas instance (a palette entry, for one).
\<close>

lemma cancelled_drag_of_instance_unchanged:
  "handleDragEnd now active None cs = Inr cs \<and>
   (active \<notin> set availableComponents \<longrightarrow> handleDragEnd now active (Some active) cs = Inr cs) \<and>
   (active \<notin> set availableComponents \<and> overId \<notin> id' ` set cs \<longrightarrow>
      handleDragEnd now active (Some overId) cs = Inr cs)"
  by (simp add: handleDragEnd_def list_ex_id del: image_eqI)

lemma cancelled_drag_of_instance_unchanged_example:
  "''A'' \<notin> set availableComponents \<and> ''Image'' \<notin> id' ` set abc_store \<and>
   handleDragEnd 0 ''A'' None abc_store = Inr abc_store \<and>
   handleDragEnd 0 ''A'' (Some ''A'') abc_store = Inr abc_store \<and>
   handleDragEnd 0 ''A'' (Some ''Image'') abc_store = Inr abc_store"
proof -
  have p: "''A'' \<notin> set availableComponents" "''Image'' \<notin> id' ` set abc_store"
    by (simp_all add: availableComponents_def abc_store_def)
  from cancelled_drag_of_instance_unchanged [of 0 "''A''" abc_store "''Image''"] p
  show ?thesis by blast
qed

lemma splice_insert_int:
  "0 \<le> p \<Longrightarrow> nat p \<le> length xs \<Longrightarrow>
     snd (splice' p 0 items xs) = take (nat p) xs @ items @ drop (nat p) xs"
  by (simp add: splice'_def Let_def min_def nat_le_iff)

lemma arrayMove_to_end:
  assumes "i < length xs"
  shows "arrayMove xs (int i) (- 1) = take i xs @ drop (Suc i) xs @ [xs ! i]"
proof -
  let ?rest = "take i xs @ drop (Suc i) xs"
  let ?p = "int (length xs) + - 1"
  from assms have l: "length ?rest = nat ?p" by (simp add: min_def)
  from assms have p0: "0 \<le> ?p" by linarith
  from l have le: "nat ?p \<le> length ?rest" by (simp only: order_refl)
  have "snd (splice' ?p 0 [xs ! i] ?rest) = take (nat ?p) ?rest @ [xs ! i] @ drop (nat ?p) ?rest"
    using p0 le by (rule splice_insert_int)
  also have "take (nat ?p) ?rest = ?rest"
    unfolding l [symmetric] by (rule take_all) (rule order_refl)
  also have "drop (nat ?p) ?rest = []"
    unfolding l [symmetric] by (rule drop_all) (rule order_refl)
  finally have s: "snd (splice' ?p 0 [xs ! i] ?rest) = ?rest @ [xs ! i]"
    by (simp only: append_Nil2)
  have "splice' (int i) (Suc 0) [] xs = ([xs ! i], ?rest)"
    using assms by (rule splice_remove_one)
  then have "arrayMove xs (int i) (- 1) = snd (splice' ?p 0 [xs ! i] ?rest)"
    by (simp add: arrayMove_def del: take_append drop_append)
  with s show ?thesis by (simp only: append_assoc)
qed

text \<open>
  In DragAdvanced.jsx every instance dropped on a target that is no canvas instance
  ends last in the sequence.
\<close>

lemma DragAdvanced_unresolved_target_moves_to_end:
  fixes cs :: "component list" and active overId :: string
  defines "i \<equiv> nat (findIndex (\<lambda>c. id' c = active) cs)"
  assumes "active \<notin> set DragAdvanced_availableComponents"
    and "active \<in> id' ` set cs" and "overId \<notin> id' ` set cs"
  shows "i < length cs \<and> id' (cs ! i) = active \<and>
         DragAdvanced_handleDragEnd now active (Some overId) cs =
           take i cs @ drop (Suc i) cs @ [cs ! i]"
proof -
  from assms(3) have ea: "\<exists>x \<in> set cs. id' x = active" by auto
  note fa = findIndex_found [of cs "\<lambda>c. id' c = active", OF ea]
  have i: "i < length cs" and ia: "id' (cs ! i) = active"
    using fa by (simp_all add: i_def)
  have ii: "findIndex (\<lambda>c. id' c = active) cs = int i"
    using fa(1) by (simp add: i_def)
  from assms(4) have jj: "findIndex (\<lambda>c. id' c = overId) cs = - 1"
    by (auto simp: findIndex_none)
  from assms(3,4) have ne: "active \<noteq> overId" by auto
  have "DragAdvanced_handleDragEnd now active (Some overId) cs = arrayMove cs (int i) (- 1)"
    using assms(2) ne by (simp add: DragAdvanced_handleDragEnd_def ii jj)
  with i ia show ?thesis by (simp add: arrayMove_to_end)
qed

lemma DragAdvanced_store_ids:
  "map id' DragAdvanced_store = [''Button-1'', ''Input-2'', ''Image-3'']"
  by code_simp

text \<open>
  C5. A drag of a canvas instance that ends on a target which is no canvas instance,
  such as a palette entry, is cancelled and must leave the store unchanged. The handler
  of DragAdvanced.jsx tests only \<^verbatim>\<open>active.id !== over.id\<close>: with a \<^verbatim>\<open>Button\<close>, an
  \<^verbatim>\<open>Input\<close> and an \<^verbatim>\<open>Image\<close> on the canvas, the \<^verbatim>\<open>Button\<close> dropped on the palette entry
  \<^verbatim>\<open>Input\<close> goes to \<^verbatim>\<open>arrayMove\<close> with the index \<open>-1\<close> and ends last. The handler of
  Drag.jsx, which tests that both are on the canvas, leaves the same store as it is.
\<close>

theorem DragAdvanced_instance_dropped_on_palette_entry_moves:
  "map id' DragAdvanced_store = [''Button-1'', ''Input-2'', ''Image-3''] \<and>
   ''Button-1'' \<notin> set DragAdvanced_availableComponents \<and>
   ''Input'' \<in> set DragAdvanced_availableComponents \<and>
   ''Input'' \<notin> id' ` set DragAdvanced_store \<and>
   DragAdvanced_handleDragEnd 4 ''Button-1'' (Some ''Input'') DragAdvanced_store =
     [DragAdvanced_store ! 1, DragAdvanced_store ! 2, DragAdvanced_store ! 0] \<and>
   map id' (DragAdvanced_handleDragEnd 4 ''Button-1'' (Some ''Input'') DragAdvanced_store) =
     [''Input-2'', ''Image-3'', ''Button-1''] \<and>
   DragAdvanced_handleDragEnd 4 ''Button-1'' (Some ''Input'') DragAdvanced_store \<noteq> DragAdvanced_store \<and>
   handleDragEnd 4 ''Button-1'' (Some ''Input'') DragAdvanced_store = Inr DragAdvanced_store"
  by code_simp

subsection \<open>Numeric style fields\<close>

lemma text_props_default: "map_of DEFAULT_PROPS ''Text'' = Some (VObj text_props)"
  by code_simp

lemma get_put_same: "get k (put k v obj) = Some v"
  by (induction obj) (auto simp: get_def)

lemma get_put_other: "k' \<noteq> k \<Longrightarrow> get k' (put k v obj) = get k' obj"
  by (induction obj) (auto simp: get_def)

lemma styles_after_DragDrop_edit:
  "get ''styles'' (handleStyleChange_DragDrop e prps) =
     Some (VObj (put (target_name e) (VNum (num_or0 (parseInt (target_value e))))
                   (spread (get ''styles'' prps))))"
  by (simp add: handleStyleChange_DragDrop_def get_put_same)

lemma num_or0_numeric: "\<exists>k. num_or0 n = Num k"
  by (cases n) auto

lemma DragDrop_style_edit_coerces:
  "\<exists>obj k. get ''styles'' (handleStyleChange_DragDrop e prps) = Some (VObj obj) \<and>
           get (target_name e) obj = Some (VNum (Num k)) \<and>
           (parseInt (target_value e) = NaN \<longrightarrow> k = 0)"
proof -
  obtain k where k: "num_or0 (parseInt (target_value e)) = Num k"
    using num_or0_numeric by blast
  then have "parseInt (target_value e) = NaN \<longrightarrow> k = 0"
    by (cases "parseInt (target_value e)") auto
  with k show ?thesis
    by (simp add: styles_after_DragDrop_edit get_put_same)
qed

text \<open>
  C6. A numeric style field whose text does not parse should store \<open>0\<close>. The panel of
  the routed component (Drag.jsx 507-517) stores the result of \<^verbatim>\<open>parseInt\<close> as it is:
  emptying the \<^verbatim>\<open>marginTop\<close> input of a default \<^verbatim>\<open>Text\<close> stores \<^verbatim>\<open>NaN\<close>. The
  \<^verbatim>\<open>DragDrop\<close> variant of the panel (Drag.jsx 1315-1321) stores \<open>0\<close> on the same event,
  and a number on every event (\<open>DragDrop_style_edit_coerces\<close>).
\<close>

theorem style_edit_stores_NaN:
  "parseInt (target_value empty_number_input) = NaN \<and>
   handleStyleChange empty_number_input text_props =
     [(''text'', VStr ''This is an editable text block. Click to select and edit in the properties panel.''),
      (''styles'', VObj
         [(''marginTop'', VNum NaN), (''marginBottom'', VNum (Num 8)),
          (''marginLeft'', VNum (Num 0)), (''marginRight'', VNum (Num 0)),
          (''fontSize'', VNum (Num 18)), (''color'', VStr ''#1e293b'')])] \<and>
   get ''styles'' (handleStyleChange_DragDrop empty_number_input text_props) =
     Some (VObj
         [(''marginTop'', VNum (Num 0)), (''marginBottom'', VNum (Num 8)),
          (''marginLeft'', VNum (Num 0)), (''marginRight'', VNum (Num 0)),
          (''fontSize'', VNum (Num 18)), (''color'', VStr ''#1e293b'')])"
  by code_simp

subsection \<open>Object URLs of images\<close>

lemma startsWith_nonempty: "startsWith s ''blob:'' \<Longrightarrow> s \<noteq> []"
  by (auto simp: startsWith_def)

lemma createObjectURL_eq:
  "createObjectURL reg =
     (''blob:'' @ show_nat (next_blob reg),
      reg\<lparr>next_blob := Suc (next_blob reg), live := (''blob:'' @ show_nat (next_blob reg)) # live reg\<rparr>)"
  by (simp add: createObjectURL_def Let_def)

lemma startsWith_minted: "startsWith (''blob:'' @ n) ''blob:''"
  by (simp add: startsWith_def)

lemma get_filter_other:
  "k \<noteq> k' \<Longrightarrow> get k (filter (\<lambda>kv. fst kv \<noteq> k') obj) = get k obj"
  by (induction obj) (auto simp: get_def)

lemma distinct_ids_eq:
  assumes "distinct (map id' cs)" and "x \<in> set cs" and "y \<in> set cs" and "id' x = id' y"
  shows "x = y"
  using assms by (meson distinct_map inj_on_def)

text \<open>The effect on the state that both handlers share.\<close>

lemma replace_keeps_no_leak:
  assumes c: "c \<in> set cs" and s: "src_of c = Some s" and d: "distinct (map id' cs)"
    and l: "leaked \<lparr>canvasComponents = cs, blobs = reg\<rparr> = []"
    and n: "get ''src'' np = Some (VStr u)"
  shows "leaked \<lparr>canvasComponents = handleUpdateComponent (id' c) np cs,
                 blobs = revokeObjectURL s (reg\<lparr>next_blob := m, live := u # live reg\<rparr>)\<rparr> = []"
proof -
  let ?cs' = "handleUpdateComponent (id' c) np cs"
  have new: "Some u \<in> src_of ` set ?cs'"
  proof -
    from c have "c\<lparr>props := np\<rparr> \<in> set ?cs'"
      by (force simp: handleUpdateComponent_def)
    moreover have "src_of (c\<lparr>props := np\<rparr>) = Some u"
      by (simp add: src_of_def n)
    ultimately show ?thesis by force
  qed
  have old: "Some v \<in> src_of ` set ?cs'" if v: "v \<in> set (live reg)" "v \<noteq> s" for v
  proof -
    from l v(1) have "Some v \<in> src_of ` set cs"
      by (auto simp: leaked_def filter_empty_conv)
    then obtain x where x: "x \<in> set cs" "src_of x = Some v" by force
    have "id' x \<noteq> id' c"
    proof
      assume "id' x = id' c"
      with d x(1) c have "x = c" by (rule distinct_ids_eq)
      with x(2) s v(2) show False by simp
    qed
    with x(1) have "x \<in> set ?cs'"
      by (force simp: handleUpdateComponent_def)
    with x(2) show ?thesis by force
  qed
  show ?thesis
    using new old by (auto simp: leaked_def revokeObjectURL_def filter_empty_conv)
qed

lemma image_replace_effect:
  fixes c :: component and st :: app and prps :: fields and s :: string
  defines "u \<equiv> ''blob:'' @ show_nat (next_blob (blobs st))"
  defines "st' \<equiv> \<lparr>canvasComponents =
                      handleUpdateComponent (id' c) (put ''src'' (VStr u) prps) (canvasComponents st),
                    blobs = revokeObjectURL s
                      ((blobs st)\<lparr>next_blob := Suc (next_blob (blobs st)), live := u # live (blobs st)\<rparr>)\<rparr>"
  assumes src: "get ''src'' prps = Some (VStr s)" and blob: "startsWith s ''blob:''"
  shows "(let (newSrc, reg) = createObjectURL (blobs st)
          in case release_previous (get ''src'' prps) reg of
               Inl err \<Rightarrow> Inl err
             | Inr reg' \<Rightarrow>
                 Inr \<lparr>canvasComponents =
                        handleUpdateComponent (id' c) (put ''src'' (VStr newSrc) prps)
                          (canvasComponents st),
                      blobs = reg'\<rparr>) = Inr st'"
    and "revoked (blobs st') = revoked (blobs st) @ [s]"
    and "s \<notin> set (live (blobs st'))"
  using src blob startsWith_nonempty [OF blob]
  by (simp_all add: createObjectURL_eq u_def st'_def revokeObjectURL_def)

text \<open>
  C8. A replacement of an image's \<^verbatim>\<open>src\<close> by a picked file
  (\<^verbatim>\<open>handleImageFileSelect\<close>) or by a dropped file (\<^verbatim>\<open>handleDrop\<close>), when the previous
  \<^verbatim>\<open>src\<close> is an object URL (a string that starts with \<open>''blob:''\<close>) and the file is
  an image: the handler completes, the log of release calls grows by exactly one call,
  the release of the previous URL, which is no longer live, and the instance gets the
  URL just created. If the instance is on the canvas, ids are distinct and no URL was
  leaked before, none is leaked after. Two replacements in a row make two release
  calls and leave one live URL, held by the instance (\<open>two_replacements_two_releases\<close>).
\<close>

theorem replace_releases_previous_once:
  fixes c :: component and st :: app and f :: js_file and s :: string
  defines "u \<equiv> ''blob:'' @ show_nat (next_blob (blobs st))"
  defines "reg' \<equiv> revokeObjectURL s
             ((blobs st)\<lparr>next_blob := Suc (next_blob (blobs st)), live := u # live (blobs st)\<rparr>)"
  assumes src: "get ''src'' (props c) = Some (VStr s)" and blob: "startsWith s ''blob:''"
    and img: "startsWith (file_type f) ''image/''"
  shows "(\<exists>st'. handleImageFileSelect (Some f) c st = Inr st' \<and>
            canvasComponents st' =
              handleUpdateComponent (id' c) (put ''src'' (VStr u) (props c)) (canvasComponents st) \<and>
            blobs st' = reg' \<and>
            revoked (blobs st') = revoked (blobs st) @ [s] \<and>
            s \<notin> set (live (blobs st')) \<and>
            (c \<in> set (canvasComponents st) \<and> distinct (map id' (canvasComponents st)) \<and>
               leaked st = [] \<longrightarrow> leaked st' = [])) \<and>
         (\<exists>st'. handleDrop (Some f) c st = Inr st' \<and>
            canvasComponents st' =
              handleUpdateComponent (id' c)
                (put ''src'' (VStr u) (filter (\<lambda>kv. fst kv \<noteq> ''styles'') (props c)))
                (canvasComponents st) \<and>
            blobs st' = reg' \<and>
            revoked (blobs st') = revoked (blobs st) @ [s] \<and>
            s \<notin> set (live (blobs st')) \<and>
            (c \<in> set (canvasComponents st) \<and> distinct (map id' (canvasComponents st)) \<and>
               leaked st = [] \<longrightarrow> leaked st' = []))"
proof -
  have sc: "src_of c = Some s"
    by (simp add: src_of_def src)
  have leak: "leaked \<lparr>canvasComponents = handleUpdateComponent (id' c) np (canvasComponents st),
                       blobs = reg'\<rparr> = []"
    if "c \<in> set (canvasComponents st)" "distinct (map id' (canvasComponents st))"
       "leaked st = []" "get ''src'' np = Some (VStr u)" for np
    unfolding reg'_def
    using that(1) sc that(2) _ that(4)
  proof (rule replace_keeps_no_leak)
    from that(3) show "leaked \<lparr>canvasComponents = canvasComponents st, blobs = blobs st\<rparr> = []"
      by (simp add: leaked_def)
  qed
  let ?rest = "filter (\<lambda>kv. fst kv \<noteq> ''styles'') (props c)"
  have src': "get ''src'' ?rest = Some (VStr s)"
    using src by (simp add: get_filter_other)
  note a = image_replace_effect [where c = c and st = st, OF src blob]
  note b = image_replace_effect [where c = c and st = st, OF src' blob]
  have 1: "handleImageFileSelect (Some f) c st =
      Inr \<lparr>canvasComponents =
             handleUpdateComponent (id' c) (put ''src'' (VStr u) (props c)) (canvasComponents st),
           blobs = reg'\<rparr>"
    using img a(1) by (simp add: handleImageFileSelect_def u_def reg'_def)
  have 2: "handleDrop (Some f) c st =
      Inr \<lparr>canvasComponents =
             handleUpdateComponent (id' c) (put ''src'' (VStr u) ?rest) (canvasComponents st),
           blobs = reg'\<rparr>"
    using img b(1) by (simp add: handleDrop_def u_def reg'_def Let_def)
  have r: "revoked reg' = revoked (blobs st) @ [s]" and n: "s \<notin> set (live reg')"
    by (simp_all add: reg'_def revokeObjectURL_def)
  show ?thesis
    using 1 2 r n leak [of "put ''src'' (VStr u) (props c)"]
      leak [of "put ''src'' (VStr u) ?rest"]
    by (simp add: get_put_same)
qed

theorem replace_releases_previous_once_witness:
  "get ''src'' (props bound_image) = Some (VStr ''blob:0'') \<and>
   startsWith ''blob:0'' ''blob:'' \<and> startsWith (file_type png_file) ''image/'' \<and>
   bound_image \<in> set (canvasComponents bound_state) \<and> leaked bound_state = [] \<and>
   (\<exists>st'. handleImageFileSelect (Some png_file) bound_image bound_state = Inr st' \<and>
          revoked (blobs st') = [''blob:0''] \<and> leaked st' = []) \<and>
   (\<exists>st'. handleDrop (Some png_file) bound_image bound_state = Inr st' \<and>
          revoked (blobs st') = [''blob:0''] \<and> leaked st' = [])"
proof -
  have p: "get ''src'' (props bound_image) = Some (VStr ''blob:0'')"
    "startsWith ''blob:0'' ''blob:''" "startsWith (file_type png_file) ''image/''"
    by (simp_all add: bound_image_def png_file_def startsWith_def get_def)
  have q: "bound_image \<in> set (canvasComponents bound_state)"
    "distinct (map id' (canvasComponents bound_state))" "leaked bound_state = []"
    "revoked (blobs bound_state) = []"
    by (simp_all add: bound_state_def leaked_def src_of_def bound_image_def get_def)
  from replace_releases_previous_once [OF p, of bound_state] p q
  show ?thesis by auto
qed

lemma two_replacements_two_releases:
  "(case handleImageFileSelect (Some png_file) bound_image bound_state of
      Inl err \<Rightarrow> False
    | Inr st1 \<Rightarrow>
        (case selectedComponent ''Image-1'' (canvasComponents st1) of
           None \<Rightarrow> False
         | Some c \<Rightarrow>
             (case handleImageFileSelect (Some png_file) c st1 of
                Inl err \<Rightarrow> False
              | Inr st2 \<Rightarrow>
                  revoked (blobs st2) = [''blob:0'', ''blob:1''] \<and>
                  live (blobs st2) = [''blob:2''] \<and>
                  src_of (canvasComponents st2 ! 0) = Some ''blob:2'' \<and>
                  leaked st2 = [])))"
  by code_simp

subsection \<open>Export and import of the document\<close>

lemma JSON_round_trip: "nan_free v \<Longrightarrow> JSON_parse (JSON_stringify v) = v"
proof (induction v)
  case (VNum n)
  then show ?case by (cases n) auto
next
  case (VArr xs)
  then have "map (JSON_parse \<circ> JSON_stringify) xs = map (\<lambda>x. x) xs"
    by (intro map_cong) (auto simp: list_all_iff)
  then show ?case by simp
next
  case (VObj obj)
  have "map (map_prod id JSON_parse \<circ> map_prod id JSON_stringify) obj = map (\<lambda>x. x) obj"
  proof (intro map_cong refl)
    fix kv assume kv: "kv \<in> set obj"
    obtain k v where e: "kv = (k, v)" by (cases kv)
    with kv VObj.prems have "nan_free v"
      by (force simp: list_all_iff)
    moreover from kv e have "v \<in> Basic_BNFs.snds kv" by simp
    ultimately have "JSON_parse (JSON_stringify v) = v"
      using VObj.IH kv by blast
    with e show "(map_prod id JSON_parse \<circ> map_prod id JSON_stringify) kv = kv" by simp
  qed
  then show ?case by simp
qed simp_all

lemma component_round_trip:
  "nan_free (VObj (props c)) \<Longrightarrow>
     component_of_val (JSON_parse (JSON_stringify (component_val c))) = Some c"
proof -
  assume "nan_free (VObj (props c))"
  then have "JSON_parse (JSON_stringify (VObj (props c))) = VObj (props c)"
    by (rule JSON_round_trip)
  then show ?thesis
    by (simp add: component_val_def component_of_val_def get_def)
qed

lemma those_map_Some: "(\<forall>x \<in> set xs. f x = Some (g x)) \<Longrightarrow> those (map f xs) = Some (map g xs)"
  by (induction xs) auto

lemma pageJson_document:
  "pageJson cs =
     JObject [(''name'', JString ''Exported Page''),
              (''components'',
               JArray (map (\<lambda>c. JObject [(''id'', JString (id' c)), (''type'', JString (type' c)),
                                          (''props'', JSON_stringify (VObj (props c)))]) cs))]"
  by (simp add: pageJson_def component_val_def comp_def)

text \<open>
  The document and its reading on the values of this model, which has integers and
  \<^verbatim>\<open>NaN\<close> for numbers.
\<close>

lemma export_round_trip_in_model:
  "pageJson cs =
     JObject [(''name'', JString ''Exported Page''),
              (''components'',
               JArray (map (\<lambda>c. JObject [(''id'', JString (id' c)), (''type'', JString (type' c)),
                                          (''props'', JSON_stringify (VObj (props c)))]) cs))] \<and>
   (list_all (\<lambda>c. nan_free (VObj (props c))) cs \<longrightarrow> fromJSON (pageJson cs) = Some cs)"
proof (intro conjI impI)
  show "pageJson cs =
     JObject [(''name'', JString ''Exported Page''),
              (''components'',
               JArray (map (\<lambda>c. JObject [(''id'', JString (id' c)), (''type'', JString (type' c)),
                                          (''props'', JSON_stringify (VObj (props c)))]) cs))]"
    by (rule pageJson_document)
next
  assume a: "list_all (\<lambda>c. nan_free (VObj (props c))) cs"
  have "\<forall>c \<in> set cs. (component_of_val \<circ> JSON_parse \<circ> JSON_stringify \<circ> component_val) c = Some ((\<lambda>x. x) c)"
    using a by (simp add: list_all_iff component_round_trip)
  then have "those (map (component_of_val \<circ> JSON_parse \<circ> JSON_stringify \<circ> component_val) cs)
             = Some (map (\<lambda>x. x) cs)"
    by (rule those_map_Some)
  then show "fromJSON (pageJson cs) = Some cs"
    by (simp add: fromJSON_def pageJson_def get_def comp_assoc)
qed

lemma exact_value_nan_free: "exact_value v \<Longrightarrow> nan_free v"
proof (induction v)
  case (VNum n)
  then show ?case by (cases n) auto
next
  case (VArr xs)
  then show ?case by (auto simp: list_all_iff)
next
  case (VObj obj)
  then show ?case by (fastforce simp: list_all_iff)
qed simp_all

text \<open>
  For a blueprint whose numbers are all integers that a double holds exactly, the
  document read back is the blueprint: the same ids, types, order and props.
\<close>

lemma export_round_trip_exact:
  "list_all (\<lambda>c. exact_value (VObj (props c))) cs \<Longrightarrow> fromJSON (pageJson cs) = Some cs"
proof -
  assume "list_all (\<lambda>c. exact_value (VObj (props c))) cs"
  then have "list_all (\<lambda>c. nan_free (VObj (props c))) cs"
    by (auto simp: list_all_iff intro: exact_value_nan_free simp del: nan_free.simps exact_value.simps)
  with export_round_trip_in_model [of cs] show ?thesis by blast
qed

lemma export_round_trip_example:
  "list_all (\<lambda>c. exact_value (VObj (props c))) scenario_store \<and>
   fromJSON (pageJson scenario_store) = Some scenario_store"
proof -
  have a: "list_all (\<lambda>c. exact_value (VObj (props c))) scenario_store"
    by (simp add: scenario_store_def)
  with export_round_trip_exact [of scenario_store] show ?thesis by blast
qed

text \<open>
  C7. The exported document should give back every blueprint: the same ids, types,
  order and props. The panel of Drag.jsx stores \<^verbatim>\<open>NaN\<close> in \<^verbatim>\<open>styles\<close> when a number input
  is emptied; for a default \<^verbatim>\<open>Text\<close> whose \<^verbatim>\<open>marginTop\<close> input has been emptied the
  document has \<^verbatim>\<open>null\<close> in the place of \<^verbatim>\<open>marginTop\<close>, and reading the document back
  gives \<^verbatim>\<open>null\<close>, not the props of the blueprint.
\<close>

theorem export_nan_not_restored:
  "pageJson nan_store =
     JObject [(''name'', JString ''Exported Page''),
              (''components'',
               JArray [JObject [(''id'', JString ''Text-1''), (''type'', JString ''Text''),
                 (''props'', JObject
                    [(''text'', JString ''This is an editable text block. Click to select and edit in the properties panel.''),
                     (''styles'', JObject
                        [(''marginTop'', JNull), (''marginBottom'', JNumber 8),
                         (''marginLeft'', JNumber 0), (''marginRight'', JNumber 0),
                         (''fontSize'', JNumber 18), (''color'', JString ''#1e293b'')])])]])] \<and>
   fromJSON (pageJson nan_store) =
     Some [\<lparr>id' = ''Text-1'', type' = ''Text'',
            props =
              [(''text'', VStr ''This is an editable text block. Click to select and edit in the properties panel.''),
               (''styles'', VObj
                  [(''marginTop'', VNull), (''marginBottom'', VNum (Num 8)),
                   (''marginLeft'', VNum (Num 0)), (''marginRight'', VNum (Num 0)),
                   (''fontSize'', VNum (Num 18)), (''color'', VStr ''#1e293b'')])]\<rparr>] \<and>
   fromJSON (pageJson nan_store) \<noteq> Some nan_store"
  by code_simp

subsection \<open>Default props handed to a new instance\<close>

text \<open>
  C9. A palette insertion should give the new instance a deep copy of the default
  props of its type, which no later change of the instance can reach. The insertion
  of DragAdvanced.jsx stores the reference of the template itself: for a \<^verbatim>\<open>Button\<close>,
  the props of the new instance are the object \<^verbatim>\<open>DEFAULT_PROPS.Button\<close>, an assignment
  to \<^verbatim>\<open>text\<close> through the instance changes the template, and the next \<^verbatim>\<open>Button\<close>
  inserted receives the changed text, not the original defaults. The insertion of
  Drag.jsx copies: \<open>Drag_insertion_copies_template\<close> on the same scenario, and
  \<open>Drag_insertion_is_a_new_copy\<close> with \<open>Drag_later_insertion_gets_defaults\<close> for every
  heap and every type.
\<close>

theorem DragAdvanced_insertion_shares_template:
  "(let (d, h) = module_heap DragAdvanced_DEFAULT_PROPS
    in case newComponent_DragAdvanced 5 ''Button'' d h of
         None \<Rightarrow> False
       | Some c \<Rightarrow>
           Some (hprops c) = read_prop d ''Button'' h \<and>
           to_tree (next_addr h) h (hprops c) = map_of DragAdvanced_DEFAULT_PROPS ''Button'' \<and>
           (let h1 = write_prop (hprops c) ''text'' (HStr ''Changed'') h
            in case newComponent_DragAdvanced 6 ''Button'' d h1 of
                 None \<Rightarrow> False
               | Some c2 \<Rightarrow>
                   read_prop (hprops c2) ''text'' h1 = Some (HStr ''Changed'') \<and>
                   to_tree (next_addr h1) h1 (hprops c2) \<noteq>
                     map_of DragAdvanced_DEFAULT_PROPS ''Button''))"
  by (simp add: module_heap_def DragAdvanced_DEFAULT_PROPS_def new_obj_def empty_heap_def
      newComponent_DragAdvanced_def read_prop_def write_prop_def get_def Let_def
      numeral_nat)

lemma default_table_data:
  "generateDefaultTableData 4 4 True =
     \<lparr>headers = [''Header 1'', ''Header 2'', ''Header 3'', ''Header 4''],
      cells = [[''Cell 1-1'', ''Cell 1-2'', ''Cell 1-3'', ''Cell 1-4''],
               [''Cell 2-1'', ''Cell 2-2'', ''Cell 2-3'', ''Cell 2-4''],
               [''Cell 3-1'', ''Cell 3-2'', ''Cell 3-3'', ''Cell 3-4'']]\<rparr>"
  by code_simp

text \<open>
  The insertion of Drag.jsx on the same scenario: the props of the new \<^verbatim>\<open>Text\<close> are a new
  object equal to the template, and after assignments to its \<^verbatim>\<open>text\<close> and to
  \<^verbatim>\<open>marginTop\<close> of its \<^verbatim>\<open>styles\<close> the next \<^verbatim>\<open>Text\<close> inserted still gets the defaults.
\<close>

lemma Drag_insertion_copies_template:
  "(let (d, h) = module_heap DEFAULT_PROPS
    in case newComponent 5 ''Text'' d h of
         Inl err \<Rightarrow> False
       | Inr (c, h0) \<Rightarrow>
           Some (hprops c) \<noteq> read_prop d ''Text'' h0 \<and>
           to_tree (next_addr h0) h0 (hprops c) = map_of DEFAULT_PROPS ''Text'' \<and>
           (case read_prop (hprops c) ''styles'' h0 of
              None \<Rightarrow> False
            | Some s \<Rightarrow>
                (let h1 = write_prop s ''marginTop'' (HNum (Num 99))
                            (write_prop (hprops c) ''text'' (HStr ''Changed'') h0)
                 in read_prop (hprops c) ''text'' h1 = Some (HStr ''Changed'') \<and>
                    read_prop s ''marginTop'' h1 = Some (HNum (Num 99)) \<and>
                    (case newComponent 6 ''Text'' d h1 of
                       Inl err \<Rightarrow> False
                     | Inr (c2, h2) \<Rightarrow>
                         to_tree (next_addr h2) h2 (hprops c2) = map_of DEFAULT_PROPS ''Text''))))"
  by (simp add: module_heap_def DEFAULT_PROPS_def default_table_data table_data_val_def
      new_obj_def empty_heap_def newComponent_def JSON_clone_def
      read_prop_def write_prop_def get_def Let_def numeral_nat)

subsection \<open>Palette drops in Drag.jsx\<close>

lemma palette_defaults:
  assumes "active \<in> set availableComponents"
  shows "\<exists>fs. map_of DEFAULT_PROPS active = Some (VObj fs) \<and> nan_free (VObj fs)"
proof -
  from assms consider "active = ''Text''" | "active = ''Description''"
    | "active = ''Image''" | "active = ''Table''"
    by (auto simp: availableComponents_def)
  then show ?thesis
    by cases (simp_all add: DEFAULT_PROPS_def default_table_data table_data_val_def comp_def)
qed

text \<open>
  In Drag.jsx a palette entry dropped on any target, itself included, is never
  cancelled: the handler completes and the sequence gains one instance of that type,
  with a minted id and the default props, at the position of the target when the
  target is a canvas instance and at the end otherwise.
\<close>

lemma palette_drop_always_inserts:
  assumes "active \<in> set availableComponents"
  shows "\<exists>c k. handleDragEnd now active (Some overId) cs = Inr (take k cs @ c # drop k cs) \<and>
               k = (if overId \<in> id' ` set cs then nat (findIndex (\<lambda>c. id' c = overId) cs)
                    else length cs) \<and>
               k \<le> length cs \<and>
               id' c = active @ ''-'' @ show_nat now \<and> type' c = active \<and>
               map_of DEFAULT_PROPS active = Some (VObj (props c))"
proof -
  from palette_defaults [OF assms] obtain fs where
    d: "map_of DEFAULT_PROPS active = Some (VObj fs)" and nf: "nan_free (VObj fs)"
    by blast
  from nf have rt: "JSON_parse (JSON_stringify (VObj fs)) = VObj fs"
    by (rule JSON_round_trip)
  let ?c = "\<lparr>id' = active @ ''-'' @ show_nat now, type' = active, props = fs\<rparr>"
  let ?o = "findIndex (\<lambda>c. id' c = overId) cs"
  show ?thesis
  proof (cases "overId \<in> id' ` set cs")
    case True
    then have ex: "\<exists>x \<in> set cs. id' x = overId" by auto
    note fo = findIndex_found [of cs "\<lambda>c. id' c = overId", OF ex]
    from fo(1) have o: "?o = int (nat ?o)" "?o \<noteq> - 1" by simp_all
    from fo(2) have le: "nat ?o \<le> length cs" by simp
    have "snd (splice' (int (nat ?o)) 0 [?c] cs) = take (nat ?o) cs @ [?c] @ drop (nat ?o) cs"
      using le by (rule splice_insert)
    with o have s: "snd (splice' ?o 0 [?c] cs) = take (nat ?o) cs @ ?c # drop (nat ?o) cs"
      by simp
    have "handleDragEnd now active (Some overId) cs = Inr (take (nat ?o) cs @ ?c # drop (nat ?o) cs)"
      using assms d o(2) s rt
      by (simp add: handleDragEnd_def fields_of_def del: JSON_stringify.simps JSON_parse.simps)
    with True le d show ?thesis by force
  next
    case False
    then have o: "?o = - 1" by (auto simp: findIndex_none)
    have "handleDragEnd now active (Some overId) cs = Inr (take (length cs) cs @ ?c # drop (length cs) cs)"
      using assms d o rt
      by (simp add: handleDragEnd_def fields_of_def del: JSON_stringify.simps JSON_parse.simps)
    with False d show ?thesis by force
  qed
qed

text \<open>
  So a palette entry dropped on itself, which is also a target that is no canvas
  instance, inserts: this is how the first instance reaches an empty canvas.
\<close>

lemma palette_entry_dropped_on_itself_inserts:
  "handleDragEnd 7 ''Image'' (Some ''Image'') [] =
     Inr [\<lparr>id' = ''Image-7'', type' = ''Image'',
           props = [(''src'', VStr ''https://images.unsplash.com/photo-1599420186946-7b6fb4e297f0?ixlib=rb-1.2.1&auto=format&fit=crop&w=800&q=80''),
                    (''alt'', VStr ''A placeholder image''),
                    (''styles'', VObj
                       [(''marginTop'', VNum (Num 10)), (''marginBottom'', VNum (Num 4)),
                        (''marginLeft'', VNum (Num 0)), (''marginRight'', VNum (Num 0))])]\<rparr>] \<and>
   handleDragEnd 7 ''Image'' (Some ''Image'') [] \<noteq> Inr []"
  by code_simp

subsection \<open>Independence of the copy made by Drag.jsx\<close>

lemma val_in_member_arr:
  "refs_of (HArr vs) \<subseteq> S \<Longrightarrow> v \<in> set vs \<Longrightarrow> val_in S v"
  by (cases v) (auto simp: refs_of_def val_in_def)

lemma val_in_member_obj:
  "refs_of (HObj fs) \<subseteq> S \<Longrightarrow> kv \<in> set fs \<Longrightarrow> val_in S (snd kv)"
  by (cases "snd kv") (force simp: refs_of_def val_in_def image_iff)+

lemma to_tree_agree:
  assumes agree: "\<forall>a \<in> S. objs h2 a = objs h a" and closed: "closed_on S h"
  shows "val_in S v \<Longrightarrow> to_tree n h2 v = to_tree n h v"
proof (induction n arbitrary: v)
  case 0
  then show ?case by (cases v) auto
next
  case (Suc n)
  show ?case
  proof (cases v)
    case (HRef a)
    with Suc.prems have a: "a \<in> S" by (simp add: val_in_def)
    with agree have eq: "objs h2 a = objs h a" by blast
    show ?thesis
    proof (cases "objs h a")
      case None
      with eq HRef show ?thesis by simp
    next
      case (Some ob)
      with closed a have sub: "refs_of ob \<subseteq> S" by (auto simp: closed_on_def)
      show ?thesis
      proof (cases ob)
        case (HArr vs)
        from sub HArr have sub': "refs_of (HArr vs) \<subseteq> S" by simp
        have m: "map (to_tree n h2) vs = map (to_tree n h) vs"
          by (intro map_cong refl Suc.IH) (rule val_in_member_arr [OF sub'])
        from eq Some HRef HArr show ?thesis by (simp add: m)
      next
        case (HObj fs)
        have m: "map (\<lambda>kv. map_option (Pair (fst kv)) (to_tree n h2 (snd kv))) fs
            = map (\<lambda>kv. map_option (Pair (fst kv)) (to_tree n h (snd kv))) fs"
        proof (intro map_cong refl)
          fix kv assume "kv \<in> set fs"
          with sub HObj have "val_in S (snd kv)" by (intro val_in_member_obj [of fs]) auto
          then have "to_tree n h2 (snd kv) = to_tree n h (snd kv)" by (rule Suc.IH)
          then show "map_option (Pair (fst kv)) (to_tree n h2 (snd kv))
                   = map_option (Pair (fst kv)) (to_tree n h (snd kv))" by simp
        qed
        from eq Some HRef HObj show ?thesis by (simp add: m)
      qed
    qed
  qed simp_all
qed

lemma those_Some_iff:
  "those xs = Some ys \<longleftrightarrow> xs = map Some ys"
  by (induction xs arbitrary: ys) (auto split: option.splits)

lemma to_tree_more_fuel:
  "to_tree n h v = Some t \<Longrightarrow> to_tree (n + k) h v = Some t"
proof (induction n arbitrary: v t)
  case 0
  then show ?case by (cases v) auto
next
  case (Suc n)
  show ?case
  proof (cases v)
    case (HRef a)
    show ?thesis
    proof (cases "objs h a")
      case None
      with Suc.prems HRef show ?thesis by simp
    next
      case (Some ob)
      show ?thesis
      proof (cases ob)
        case (HArr vs)
        with Suc.prems HRef Some obtain ts where
          ts: "those (map (to_tree n h) vs) = Some ts" and t: "t = VArr ts"
          by auto
        from ts have "map (to_tree n h) vs = map Some ts" by (simp add: those_Some_iff)
        then have "\<forall>i < length vs. to_tree n h (vs ! i) = Some (ts ! i)" and len: "length ts = length vs"
          by (auto simp: list_eq_iff_nth_eq)
        then have "\<forall>i < length vs. to_tree (n + k) h (vs ! i) = Some (ts ! i)"
          using Suc.IH by blast
        with len have "map (to_tree (n + k) h) vs = map Some ts"
          by (simp add: list_eq_iff_nth_eq)
        then have "those (map (to_tree (n + k) h) vs) = Some ts" by (simp add: those_Some_iff)
        with HRef Some HArr t show ?thesis by simp
      next
        case (HObj fs)
        let ?f = "\<lambda>m kv. map_option (Pair (fst kv)) (to_tree m h (snd kv))"
        from Suc.prems HRef Some HObj obtain ts where
          ts: "those (map (?f n) fs) = Some ts" and t: "t = VObj ts"
          by auto
        from ts have "map (?f n) fs = map Some ts" by (simp add: those_Some_iff)
        then have a: "\<forall>i < length fs. ?f n (fs ! i) = Some (ts ! i)" and len: "length ts = length fs"
          by (auto simp: list_eq_iff_nth_eq)
        have "\<forall>i < length fs. ?f (n + k) (fs ! i) = Some (ts ! i)"
        proof (intro allI impI)
          fix i assume "i < length fs"
          with a have "?f n (fs ! i) = Some (ts ! i)" by blast
          then obtain u where u: "to_tree n h (snd (fs ! i)) = Some u" and e: "ts ! i = (fst (fs ! i), u)"
            by auto
          from u have "to_tree (n + k) h (snd (fs ! i)) = Some u" by (rule Suc.IH)
          with e show "?f (n + k) (fs ! i) = Some (ts ! i)" by simp
        qed
        with len have "map (?f (n + k)) fs = map Some ts"
          by (simp add: list_eq_iff_nth_eq)
        then have "those (map (?f (n + k)) fs) = Some ts" by (simp add: those_Some_iff)
        with HRef Some HObj t show ?thesis by simp
      qed
    qed
  qed (use Suc.prems in auto)
qed

lemma extends_refl: "extends h h"
  by (simp add: extends_def)

lemma extends_trans: "extends h ha \<Longrightarrow> extends ha h1 \<Longrightarrow> extends h h1"
  by (auto simp: extends_def)

lemma allocated_refl: "allocated h h"
  by (simp add: allocated_def extends_def closed_on_def)

lemma closed_onD: "closed_on S h \<Longrightarrow> a \<in> S \<Longrightarrow> objs h a = Some ob \<Longrightarrow> refs_of ob \<subseteq> S"
  by (simp add: closed_on_def)

lemma allocated_trans:
  assumes "allocated h ha" and "allocated ha h1"
  shows "allocated h h1"
proof -
  from assms have e1: "extends h ha" and e2: "extends ha h1"
    and c1: "closed_on {next_addr h..<next_addr ha} ha"
    and c2: "closed_on {next_addr ha..<next_addr h1} h1"
    by (auto simp: allocated_def)
  from e1 e2 have le: "next_addr h \<le> next_addr ha" "next_addr ha \<le> next_addr h1"
    and f2: "\<forall>a < next_addr ha. objs h1 a = objs ha a"
    by (auto simp: extends_def)
  have "closed_on {next_addr h..<next_addr h1} h1"
    unfolding closed_on_def
  proof (intro ballI allI impI)
    fix a ob assume a: "a \<in> {next_addr h..<next_addr h1}" and ob: "objs h1 a = Some ob"
    show "refs_of ob \<subseteq> {next_addr h..<next_addr h1}"
    proof (cases "a < next_addr ha")
      case True
      with f2 ob have "objs ha a = Some ob" by simp
      moreover from a True have "a \<in> {next_addr h..<next_addr ha}" by simp
      ultimately have "refs_of ob \<subseteq> {next_addr h..<next_addr ha}"
        using c1 by (blast dest: closed_onD)
      with le show ?thesis by auto
    next
      case False
      with a have "a \<in> {next_addr ha..<next_addr h1}" by simp
      with c2 ob have "refs_of ob \<subseteq> {next_addr ha..<next_addr h1}"
        by (blast dest: closed_onD)
      with le show ?thesis by auto
    qed
  qed
  with e1 e2 show ?thesis
    by (simp add: allocated_def extends_trans)
qed

lemma val_in_mono: "val_in S v \<Longrightarrow> S \<subseteq> T \<Longrightarrow> val_in T v"
  by (cases v) (auto simp: val_in_def)

lemma to_tree_after_extends:
  assumes a: "allocated h ha" and b: "extends ha h1"
    and v: "val_in {next_addr h..<next_addr ha} v"
  shows "to_tree n h1 v = to_tree n ha v"
proof (rule to_tree_agree [OF _ _ v])
  from b show "\<forall>a \<in> {next_addr h..<next_addr ha}. objs h1 a = objs ha a"
    by (simp add: extends_def)
  from a show "closed_on {next_addr h..<next_addr ha} ha"
    by (simp add: allocated_def)
qed

lemma new_obj_allocated:
  assumes a: "allocated h h1" and r: "refs_of ob \<subseteq> {next_addr h..<next_addr h1}"
    and n: "new_obj ob h1 = (v, h')"
  shows "allocated h h'" and "extends h1 h'" and "v = HRef (next_addr h1)"
    and "objs h' (next_addr h1) = Some ob" and "next_addr h' = Suc (next_addr h1)"
proof -
  from n have v: "v = HRef (next_addr h1)"
    and h': "h' = h1\<lparr>objs := (objs h1)(next_addr h1 \<mapsto> ob), next_addr := Suc (next_addr h1)\<rparr>"
    by (auto simp: new_obj_def)
  from a have e: "extends h h1"
    and c: "closed_on {next_addr h..<next_addr h1} h1"
    by (auto simp: allocated_def)
  from e have le: "next_addr h \<le> next_addr h1" by (simp add: extends_def)
  show "v = HRef (next_addr h1)" by (rule v)
  show "objs h' (next_addr h1) = Some ob" by (simp add: h')
  show "next_addr h' = Suc (next_addr h1)" by (simp add: h')
  show e1: "extends h1 h'" by (simp add: extends_def h')
  have "closed_on {next_addr h..<next_addr h'} h'"
    unfolding closed_on_def
  proof (intro ballI allI impI)
    fix a ob' assume a: "a \<in> {next_addr h..<next_addr h'}" and ob: "objs h' a = Some ob'"
    show "refs_of ob' \<subseteq> {next_addr h..<next_addr h'}"
    proof (cases "a = next_addr h1")
      case True
      with ob have "ob' = ob" by (simp add: h')
      with r show ?thesis by (auto simp: h')
    next
      case False
      with ob have "objs h1 a = Some ob'" by (simp add: h')
      moreover from a False have "a \<in> {next_addr h..<next_addr h1}" by (simp add: h')
      ultimately have "refs_of ob' \<subseteq> {next_addr h..<next_addr h1}"
        using c by (blast dest: closed_onD)
      then show ?thesis by (auto simp: h')
    qed
  qed
  with e e1 show "allocated h h'"
    by (simp add: allocated_def extends_trans)
qed

lemma allocated_le: "allocated h h' \<Longrightarrow> next_addr h \<le> next_addr h'"
  by (simp add: allocated_def extends_def)

lemma allocated_extends: "allocated h h' \<Longrightarrow> extends h h'"
  by (simp add: allocated_def)

lemma alloc_all_correct:
  assumes IH: "\<And>x h v h'. x \<in> set xs \<Longrightarrow> alloc x h = (v, h') \<Longrightarrow>
            allocated h h' \<and> val_in {next_addr h..<next_addr h'} v \<and> to_tree (size x) h' v = Some x"
  shows "alloc_all (map alloc xs) h = (vs, h1) \<Longrightarrow>
         allocated h h1 \<and>
         list_all2 (\<lambda>x v. val_in {next_addr h..<next_addr h1} v \<and> to_tree (size x) h1 v = Some x) xs vs"
  using IH
proof (induction xs arbitrary: h vs h1)
  case Nil
  then show ?case by (simp add: allocated_refl)
next
  case (Cons x xs)
  obtain v ha where x: "alloc x h = (v, ha)" by (cases "alloc x h")
  obtain vs' hb where r: "alloc_all (map alloc xs) ha = (vs', hb)"
    by (cases "alloc_all (map alloc xs) ha")
  from Cons.prems(1) x r have vs: "vs = v # vs'" and hb: "hb = h1"
    by simp_all
  from Cons.prems(2) [OF _ x] have ax: "allocated h ha"
    and vx: "val_in {next_addr h..<next_addr ha} v" and tx: "to_tree (size x) ha v = Some x"
    by simp_all
  have "allocated ha hb \<and>
        list_all2 (\<lambda>x v. val_in {next_addr ha..<next_addr hb} v \<and> to_tree (size x) hb v = Some x) xs vs'"
    using r
  proof (rule Cons.IH)
    fix y h v h' assume "y \<in> set xs" "alloc y h = (v, h')"
    then show "allocated h h' \<and> val_in {next_addr h..<next_addr h'} v \<and> to_tree (size y) h' v = Some y"
      using Cons.prems(2) [of y h v h'] by simp
  qed
  then have ar: "allocated ha h1"
    and lr: "list_all2 (\<lambda>x v. val_in {next_addr ha..<next_addr h1} v \<and> to_tree (size x) h1 v = Some x) xs vs'"
    by (simp_all add: hb)
  from ax ar have a: "allocated h h1" by (rule allocated_trans)
  have le: "next_addr h \<le> next_addr ha" "next_addr ha \<le> next_addr h1"
    using ax ar by (simp_all add: allocated_le)
  have "to_tree (size x) h1 v = to_tree (size x) ha v"
    using ax allocated_extends [OF ar] vx by (rule to_tree_after_extends)
  with tx have t: "to_tree (size x) h1 v = Some x" by simp
  from vx le have v': "val_in {next_addr h..<next_addr h1} v"
    by (auto intro: val_in_mono)
  have "list_all2 (\<lambda>x v. val_in {next_addr h..<next_addr h1} v \<and> to_tree (size x) h1 v = Some x) xs vs'"
    using lr
  proof (rule list_all2_mono)
    fix y w assume "val_in {next_addr ha..<next_addr h1} w \<and> to_tree (size y) h1 w = Some y"
    with le show "val_in {next_addr h..<next_addr h1} w \<and> to_tree (size y) h1 w = Some y"
      by (auto intro: val_in_mono)
  qed
  with a t v' show ?case by (simp add: vs)
qed

lemma alloc_fields_correct:
  assumes IH: "\<And>k x h v h'. (k, x) \<in> set obj \<Longrightarrow> alloc x h = (v, h') \<Longrightarrow>
            allocated h h' \<and> val_in {next_addr h..<next_addr h'} v \<and> to_tree (size x) h' v = Some x"
  shows "alloc_fields (map (map_prod id alloc) obj) h = (fs, h1) \<Longrightarrow>
         allocated h h1 \<and>
         list_all2 (\<lambda>kx kv. fst kv = fst kx \<and> val_in {next_addr h..<next_addr h1} (snd kv) \<and>
                      to_tree (size (snd kx)) h1 (snd kv) = Some (snd kx)) obj fs"
  using IH
proof (induction obj arbitrary: h fs h1)
  case Nil
  then show ?case by (simp add: allocated_refl)
next
  case (Cons kx obj)
  obtain k x where kx: "kx = (k, x)" by (cases kx)
  obtain v ha where x: "alloc x h = (v, ha)" by (cases "alloc x h")
  obtain fs' hb where r: "alloc_fields (map (map_prod id alloc) obj) ha = (fs', hb)"
    by (cases "alloc_fields (map (map_prod id alloc) obj) ha")
  from Cons.prems(1) kx x r have fs: "fs = (k, v) # fs'" and hb: "hb = h1"
    by (simp_all add: id_def)
  from Cons.prems(2) [of k x h v ha] kx x have ax: "allocated h ha"
    and vx: "val_in {next_addr h..<next_addr ha} v" and tx: "to_tree (size x) ha v = Some x"
    by simp_all
  have "allocated ha hb \<and>
        list_all2 (\<lambda>kx kv. fst kv = fst kx \<and> val_in {next_addr ha..<next_addr hb} (snd kv) \<and>
                      to_tree (size (snd kx)) hb (snd kv) = Some (snd kx)) obj fs'"
    using r
  proof (rule Cons.IH)
    fix k' y h v h' assume "(k', y) \<in> set obj" "alloc y h = (v, h')"
    then show "allocated h h' \<and> val_in {next_addr h..<next_addr h'} v \<and> to_tree (size y) h' v = Some y"
      using Cons.prems(2) [of k' y h v h'] by simp
  qed
  then have ar: "allocated ha h1"
    and lr: "list_all2 (\<lambda>kx kv. fst kv = fst kx \<and> val_in {next_addr ha..<next_addr h1} (snd kv) \<and>
                      to_tree (size (snd kx)) h1 (snd kv) = Some (snd kx)) obj fs'"
    by (simp_all add: hb)
  from ax ar have a: "allocated h h1" by (rule allocated_trans)
  have le: "next_addr h \<le> next_addr ha" "next_addr ha \<le> next_addr h1"
    using ax ar by (simp_all add: allocated_le)
  have "to_tree (size x) h1 v = to_tree (size x) ha v"
    using ax allocated_extends [OF ar] vx by (rule to_tree_after_extends)
  with tx have t: "to_tree (size x) h1 v = Some x" by simp
  from vx le have v': "val_in {next_addr h..<next_addr h1} v"
    by (auto intro: val_in_mono)
  have "list_all2 (\<lambda>kx kv. fst kv = fst kx \<and> val_in {next_addr h..<next_addr h1} (snd kv) \<and>
                      to_tree (size (snd kx)) h1 (snd kv) = Some (snd kx)) obj fs'"
    using lr
  proof (rule list_all2_mono)
    fix p q assume "fst q = fst p \<and> val_in {next_addr ha..<next_addr h1} (snd q) \<and>
                      to_tree (size (snd p)) h1 (snd q) = Some (snd p)"
    with le show "fst q = fst p \<and> val_in {next_addr h..<next_addr h1} (snd q) \<and>
                      to_tree (size (snd p)) h1 (snd q) = Some (snd p)"
      by (auto intro: val_in_mono)
  qed
  with a t v' show ?case by (simp add: fs kx)
qed

lemma those_map_Some_list_all2:
  "list_all2 (\<lambda>x v. f v = Some x) xs vs \<Longrightarrow> those (map f vs) = Some xs"
  by (induction rule: list_all2_induct) auto

lemma to_tree_fuel_le:
  "to_tree n h v = Some t \<Longrightarrow> n \<le> m \<Longrightarrow> to_tree m h v = Some t"
  using to_tree_more_fuel [of n h v t "m - n"] by simp

lemma size_member_le: "x \<in> set xs \<Longrightarrow> size x \<le> size_list size xs"
  using size_list_estimation' [of x xs "size x" size] by simp

lemma size_field_le:
  "kx \<in> set obj \<Longrightarrow> size (snd kx) \<le> size_list (size_prod (\<lambda>_. 0) size) obj"
  using size_list_estimation' [of kx obj "size (snd kx)" "size_prod (\<lambda>_. 0) size"]
  by (cases kx) simp

lemma alloc_correct:
  "alloc t h = (v, h') \<Longrightarrow>
     allocated h h' \<and> val_in {next_addr h..<next_addr h'} v \<and> to_tree (size t) h' v = Some t"
proof (induction t arbitrary: h v h')
  case (VArr xs)
  obtain vs h1 where r: "alloc_all (map alloc xs) h = (vs, h1)"
    by (cases "alloc_all (map alloc xs) h")
  with VArr.prems have n: "new_obj (HArr vs) h1 = (v, h')" by simp
  have "allocated h h1 \<and>
        list_all2 (\<lambda>x v. val_in {next_addr h..<next_addr h1} v \<and> to_tree (size x) h1 v = Some x) xs vs"
  proof (rule alloc_all_correct [OF _ r])
    fix x h v h' assume "x \<in> set xs" "alloc x h = (v, h')"
    then show "allocated h h' \<and> val_in {next_addr h..<next_addr h'} v \<and> to_tree (size x) h' v = Some x"
      by (rule VArr.IH)
  qed
  then have a1: "allocated h h1"
    and l: "list_all2 (\<lambda>x v. val_in {next_addr h..<next_addr h1} v \<and> to_tree (size x) h1 v = Some x) xs vs"
    by simp_all
  from l have vin: "\<forall>w \<in> set vs. val_in {next_addr h..<next_addr h1} w"
    by (auto simp: list_all2_conv_all_nth in_set_conv_nth)
  then have refs: "refs_of (HArr vs) \<subseteq> {next_addr h..<next_addr h1}"
    by (force simp: refs_of_def val_in_def)
  note no = new_obj_allocated [OF a1 refs n]
  let ?m = "size_list size xs"
  have "list_all2 (\<lambda>x w. to_tree ?m h' w = Some x) xs vs"
    unfolding list_all2_conv_all_nth
  proof (intro conjI allI impI)
    from l show "length xs = length vs" by (rule list_all2_lengthD)
  next
    fix i assume i: "i < length xs"
    with l have w: "val_in {next_addr h..<next_addr h1} (vs ! i)"
      and t: "to_tree (size (xs ! i)) h1 (vs ! i) = Some (xs ! i)"
      by (simp_all add: list_all2_conv_all_nth)
    have "to_tree (size (xs ! i)) h' (vs ! i) = to_tree (size (xs ! i)) h1 (vs ! i)"
      using a1 no(2) w by (rule to_tree_after_extends)
    with t have "to_tree (size (xs ! i)) h' (vs ! i) = Some (xs ! i)" by simp
    moreover from i have "size (xs ! i) \<le> ?m" by (simp add: size_member_le)
    ultimately show "to_tree ?m h' (vs ! i) = Some (xs ! i)" by (rule to_tree_fuel_le)
  qed
  then have "those (map (to_tree ?m h') vs) = Some xs"
    by (rule those_map_Some_list_all2)
  then have "to_tree (size (VArr xs)) h' v = Some (VArr xs)"
    using no(3,4) by simp
  moreover have "val_in {next_addr h..<next_addr h'} v"
    using no(3,5) allocated_le [OF a1] by (simp add: val_in_def)
  ultimately show ?case using no(1) by simp
next
  case (VObj obj)
  obtain fs h1 where r: "alloc_fields (map (map_prod id alloc) obj) h = (fs, h1)"
    by (cases "alloc_fields (map (map_prod id alloc) obj) h")
  with VObj.prems have n: "new_obj (HObj fs) h1 = (v, h')" by simp
  have IH: "\<And>k x h v h'. (k, x) \<in> set obj \<Longrightarrow> alloc x h = (v, h') \<Longrightarrow>
            allocated h h' \<and> val_in {next_addr h..<next_addr h'} v \<and> to_tree (size x) h' v = Some x"
  proof -
    fix k x h v h' assume m: "(k, x) \<in> set obj" and a: "alloc x h = (v, h')"
    from m have "x \<in> Basic_BNFs.snds (k, x)" by simp
    with VObj.IH [OF m _ a]
    show "allocated h h' \<and> val_in {next_addr h..<next_addr h'} v \<and> to_tree (size x) h' v = Some x"
      by blast
  qed
  have "allocated h h1 \<and>
         list_all2 (\<lambda>kx kv. fst kv = fst kx \<and> val_in {next_addr h..<next_addr h1} (snd kv) \<and>
                      to_tree (size (snd kx)) h1 (snd kv) = Some (snd kx)) obj fs"
  proof (rule alloc_fields_correct [OF _ r])
    fix k x h v h' assume "(k, x) \<in> set obj" "alloc x h = (v, h')"
    then show "allocated h h' \<and> val_in {next_addr h..<next_addr h'} v \<and> to_tree (size x) h' v = Some x"
      by (rule IH)
  qed
  then have a1: "allocated h h1"
    and l: "list_all2 (\<lambda>kx kv. fst kv = fst kx \<and> val_in {next_addr h..<next_addr h1} (snd kv) \<and>
                      to_tree (size (snd kx)) h1 (snd kv) = Some (snd kx)) obj fs"
    by simp_all
  from l have vin: "\<forall>kv \<in> set fs. val_in {next_addr h..<next_addr h1} (snd kv)"
    by (fastforce simp: list_all2_conv_all_nth in_set_conv_nth)
  then have refs: "refs_of (HObj fs) \<subseteq> {next_addr h..<next_addr h1}"
    by (force simp: refs_of_def val_in_def)
  note no = new_obj_allocated [OF a1 refs n]
  let ?m = "size_list (size_prod (\<lambda>_. 0) size) obj"
  let ?f = "\<lambda>kv. map_option (Pair (fst kv)) (to_tree ?m h' (snd kv))"
  have "list_all2 (\<lambda>kx kv. ?f kv = Some kx) obj fs"
    unfolding list_all2_conv_all_nth
  proof (intro conjI allI impI)
    from l show "length obj = length fs" by (rule list_all2_lengthD)
  next
    fix i assume i: "i < length obj"
    with l have k: "fst (fs ! i) = fst (obj ! i)"
      and w: "val_in {next_addr h..<next_addr h1} (snd (fs ! i))"
      and t: "to_tree (size (snd (obj ! i))) h1 (snd (fs ! i)) = Some (snd (obj ! i))"
      by (simp_all add: list_all2_conv_all_nth)
    have "to_tree (size (snd (obj ! i))) h' (snd (fs ! i))
        = to_tree (size (snd (obj ! i))) h1 (snd (fs ! i))"
      using a1 no(2) w by (rule to_tree_after_extends)
    with t have "to_tree (size (snd (obj ! i))) h' (snd (fs ! i)) = Some (snd (obj ! i))" by simp
    moreover from i have "size (snd (obj ! i)) \<le> ?m" by (simp add: size_field_le)
    ultimately have "to_tree ?m h' (snd (fs ! i)) = Some (snd (obj ! i))" by (rule to_tree_fuel_le)
    with k show "?f (fs ! i) = Some (obj ! i)" by simp
  qed
  then have "those (map ?f fs) = Some obj"
    by (rule those_map_Some_list_all2)
  then have "to_tree (size (VObj obj)) h' v = Some (VObj obj)"
    using no(3,4) by simp
  moreover have "val_in {next_addr h..<next_addr h'} v"
    using no(3,5) allocated_le [OF a1] by (simp add: val_in_def)
  ultimately show ?case using no(1) by simp
qed (auto simp: allocated_refl val_in_def)

lemma reaches_in_closed:
  assumes c: "closed_on S h" and r: "reaches h v a"
  shows "val_in S v \<Longrightarrow> a \<in> S"
  using r
proof (induction rule: reaches.induct)
  case (here a)
  then show ?case by (simp add: val_in_def)
next
  case (step a ob b c')
  from step.prems have "a \<in> S" by (simp add: val_in_def)
  with c step.hyps(1) have "refs_of ob \<subseteq> S" by (blast dest: closed_onD)
  with step.hyps(2) have "val_in S (HRef b)" by (auto simp: val_in_def)
  then show ?case by (rule step.IH)
qed

lemma newComponent_Inr:
  assumes "newComponent now active defaults h = Inr (c, h')"
  obtains d t where "read_prop defaults active h = Some d"
    and "to_tree (next_addr h) h d = Some t"
    and "alloc (JSON_parse (JSON_stringify t)) h = (hprops c, h')"
    and "hid c = active @ ''-'' @ show_nat now" and "htype c = active"
  using assms
  by (auto simp: newComponent_def JSON_clone_def split: option.splits sum.splits prod.splits)

lemma write_prop_extends:
  assumes "next_addr h \<le> a" and "extends h h'"
  shows "extends h (write_prop (HRef a) k v h')"
  using assms by (auto simp: extends_def write_prop_def split: option.splits hobj.splits)

lemma get_member: "get k fs = Some d \<Longrightarrow> d \<in> snd ` set fs"
  by (auto simp: get_def dest!: map_of_SomeD intro: rev_image_eqI)

lemma read_prop_old:
  assumes r: "read_prop x k h = Some d" and x: "val_in {..<next_addr h} x"
    and c: "closed_on {..<next_addr h} h" and e: "extends h h2"
  shows "read_prop x k h2 = Some d" and "val_in {..<next_addr h} d"
proof -
  from r obtain a fs where a: "x = HRef a" and o: "objs h a = Some (HObj fs)" and g: "get k fs = Some d"
    by (auto simp: read_prop_def split: hval.splits option.splits hobj.splits)
  from x a have lt: "a < next_addr h" by (simp add: val_in_def)
  with e have "objs h2 a = objs h a" by (simp add: extends_def)
  with a o g show "read_prop x k h2 = Some d" by (simp add: read_prop_def)
  from c lt o have "refs_of (HObj fs) \<subseteq> {..<next_addr h}" by (blast dest: closed_onD)
  with get_member [OF g] show "val_in {..<next_addr h} d"
    by (cases d) (auto simp: val_in_def refs_of_def)
qed

text \<open>
  The insertion of Drag.jsx, for every heap, type and clock reading on which it
  completes: nothing that existed before is changed; the props of the new instance,
  with every nested part, are objects that did not exist before; what they hold is the
  value of the template; and a single assignment to any of them leaves everything that
  existed before as it was.
\<close>

lemma Drag_insertion_is_a_new_copy:
  assumes ins: "newComponent now active defaults h = Inr (c, h')"
  shows "extends h h'"
    and "\<forall>a. reaches h' (hprops c) a \<longrightarrow> next_addr h \<le> a \<and> a < next_addr h'"
    and "\<exists>d t. read_prop defaults active h = Some d \<and> to_tree (next_addr h) h d = Some t \<and>
               to_tree (size (JSON_parse (JSON_stringify t))) h' (hprops c)
                 = Some (JSON_parse (JSON_stringify t))"
    and "\<forall>a k v. reaches h' (hprops c) a \<longrightarrow> extends h (write_prop (HRef a) k v h')"
proof -
  from ins obtain d t where d: "read_prop defaults active h = Some d"
    and t: "to_tree (next_addr h) h d = Some t"
    and a: "alloc (JSON_parse (JSON_stringify t)) h = (hprops c, h')"
    by (rule newComponent_Inr)
  note ac = alloc_correct [OF a]
  from ac show e: "extends h h'" by (simp add: allocated_def)
  from ac have cl: "closed_on {next_addr h..<next_addr h'} h'"
    and vi: "val_in {next_addr h..<next_addr h'} (hprops c)"
    by (simp_all add: allocated_def)
  show r: "\<forall>a. reaches h' (hprops c) a \<longrightarrow> next_addr h \<le> a \<and> a < next_addr h'"
  proof (intro allI impI)
    fix a assume "reaches h' (hprops c) a"
    with cl have "a \<in> {next_addr h..<next_addr h'}" using vi by (rule reaches_in_closed)
    then show "next_addr h \<le> a \<and> a < next_addr h'" by simp
  qed
  from d t ac show "\<exists>d t. read_prop defaults active h = Some d \<and> to_tree (next_addr h) h d = Some t \<and>
               to_tree (size (JSON_parse (JSON_stringify t))) h' (hprops c)
                 = Some (JSON_parse (JSON_stringify t))"
    by blast
  show "\<forall>a k v. reaches h' (hprops c) a \<longrightarrow> extends h (write_prop (HRef a) k v h')"
    using r e by (blast intro: write_prop_extends)
qed

text \<open>
  A later insertion of the same type, on any heap in which everything that existed at
  the first insertion is as it was (whatever has been done to the first instance's own
  objects, and whatever has been allocated since): it completes, and the props it
  builds hold the value the template had at the first insertion. The heap at the first
  insertion refers only to objects that exist, \<^verbatim>\<open>DEFAULT_PROPS\<close> among them.
\<close>

lemma Drag_later_insertion_gets_defaults:
  assumes ins: "newComponent now active defaults h = Inr (c, h')"
    and wf: "closed_on {..<next_addr h} h" and dv: "val_in {..<next_addr h} defaults"
    and later: "extends h h2"
  shows "\<exists>d t c2 h3. read_prop defaults active h = Some d \<and> to_tree (next_addr h) h d = Some t \<and>
           to_tree (next_addr h2) h2 d = Some t \<and>
           newComponent now2 active defaults h2 = Inr (c2, h3) \<and>
           to_tree (size (JSON_parse (JSON_stringify t))) h3 (hprops c2)
             = Some (JSON_parse (JSON_stringify t))"
proof -
  from ins obtain d t where d: "read_prop defaults active h = Some d"
    and t: "to_tree (next_addr h) h d = Some t"
    by (rule newComponent_Inr)
  note ro = read_prop_old [OF d dv wf later]
  have "to_tree (next_addr h) h2 d = to_tree (next_addr h) h d"
  proof (rule to_tree_agree [OF _ wf ro(2)])
    from later show "\<forall>a \<in> {..<next_addr h}. objs h2 a = objs h a"
      by (simp add: extends_def)
  qed
  with t have "to_tree (next_addr h) h2 d = Some t" by simp
  moreover from later have "next_addr h \<le> next_addr h2" by (simp add: extends_def)
  ultimately have t2: "to_tree (next_addr h2) h2 d = Some t" by (rule to_tree_fuel_le)
  obtain p h3 where a: "alloc (JSON_parse (JSON_stringify t)) h2 = (p, h3)"
    by (cases "alloc (JSON_parse (JSON_stringify t)) h2")
  let ?c2 = "\<lparr>hid = active @ ''-'' @ show_nat now2, htype = active, hprops = p\<rparr>"
  from ro(1) t2 a have "newComponent now2 active defaults h2 = Inr (?c2, h3)"
    by (simp add: newComponent_def JSON_clone_def)
  moreover from alloc_correct [OF a]
  have "to_tree (size (JSON_parse (JSON_stringify t))) h3 (hprops ?c2) = Some (JSON_parse (JSON_stringify t))"
    by simp
  ultimately show ?thesis using d t t2 by blast
qed

lemma allocated_keeps_closed:
  assumes c: "closed_on {..<next_addr h} h" and a: "allocated h h'"
  shows "closed_on {..<next_addr h'} h'"
  unfolding closed_on_def
proof (intro ballI allI impI)
  fix x ob assume x: "x \<in> {..<next_addr h'}" and ob: "objs h' x = Some ob"
  from a have e: "extends h h'" and n: "closed_on {next_addr h..<next_addr h'} h'"
    by (simp_all add: allocated_def)
  show "refs_of ob \<subseteq> {..<next_addr h'}"
  proof (cases "x < next_addr h")
    case True
    with e ob have "objs h x = Some ob" by (simp add: extends_def)
    with c True have "refs_of ob \<subseteq> {..<next_addr h}" by (blast dest: closed_onD)
    with e show ?thesis by (auto simp: extends_def)
  next
    case False
    with x have "x \<in> {next_addr h..<next_addr h'}" by simp
    with n ob have "refs_of ob \<subseteq> {next_addr h..<next_addr h'}" by (blast dest: closed_onD)
    then show ?thesis by auto
  qed
qed

text \<open>The heap the module starts with meets the conditions of the previous lemma.\<close>

lemma module_heap_closed:
  assumes "module_heap table = (d, h)"
  shows "closed_on {..<next_addr h} h" and "val_in {..<next_addr h} d"
proof -
  from assms have a: "alloc (VObj table) empty_heap = (d, h)" by (simp add: module_heap_def)
  note ac = alloc_correct [OF a]
  have z: "closed_on {..<next_addr empty_heap} empty_heap"
    by (simp add: closed_on_def empty_heap_def)
  from ac have "allocated empty_heap h" by simp
  with z show "closed_on {..<next_addr h} h" by (rule allocated_keeps_closed)
  from ac have "val_in {next_addr empty_heap..<next_addr h} d" by simp
  then show "val_in {..<next_addr h} d"
    by (rule val_in_mono) auto
qed

end
